theory Spec2Isabelle
  imports Complex_Main "HOL-Library.AList"
begin

section \<open>Library values used by calendar\_analyzer.py\<close>

text \<open>
  The analyzer works on values of Python's \<^verbatim>\<open>datetime\<close> module. Their arithmetic is
  modelled on the library's own normal form: a \<^verbatim>\<open>timedelta\<close> is a count of microseconds,
  a \<^verbatim>\<open>date\<close> is its proleptic Gregorian ordinal (\<^verbatim>\<open>date.toordinal()\<close>, day 1 is
  0001-01-01) and the wall-clock fields of a \<^verbatim>\<open>datetime\<close> are one count of microseconds
  since 0001-01-01T00:00:00. Year, month and day are read back with the library's
  \<^verbatim>\<open>_ord2ymd\<close>. The library's year range 1..9999 (and the OverflowError and ValueError
  it raises at the two ends of that range) is not modelled: ordinals are unbounded integers.
  Floats are idealised as reals; sums are taken in the order the code adds them.
\<close>

datatype py_error = TypeError | ReError

text \<open>An exception propagates: the rest of the computation is skipped.\<close>

definition py_bind :: "py_error + 'a \<Rightarrow> ('a \<Rightarrow> py_error + 'b) \<Rightarrow> py_error + 'b" where
  "py_bind r f = (case r of Inl e \<Rightarrow> Inl e | Inr v \<Rightarrow> f v)"

type_synonym timedelta = int

definition us_per_second :: int where
  "us_per_second = 1000000"

definition us_per_day :: int where
  "us_per_day = 86400 * us_per_second"

text \<open>\<^verbatim>\<open>timedelta(hours=h)\<close> and \<^verbatim>\<open>timedelta(days=d)\<close>.\<close>

definition timedelta_hours :: "int \<Rightarrow> timedelta" where
  "timedelta_hours h = h * 3600 * us_per_second"

definition timedelta_days :: "int \<Rightarrow> timedelta" where
  "timedelta_days d = d * us_per_day"

text \<open>The \<^verbatim>\<open>.days\<close> attribute of a timedelta (floor division, as the library normalises).\<close>

definition td_days :: "timedelta \<Rightarrow> int" where
  "td_days d = d div us_per_day"

definition total_seconds :: "timedelta \<Rightarrow> real" where
  "total_seconds d = real_of_int d / real_of_int us_per_second"

text \<open>\<^verbatim>\<open>duration.total_seconds() / 3600\<close>, as every statistics function computes it.\<close>

definition hours_of :: "timedelta \<Rightarrow> real" where
  "hours_of d = total_seconds d / 3600"

subsection \<open>The proleptic Gregorian calendar of the datetime module\<close>

type_synonym date = int

definition is_leap :: "int \<Rightarrow> bool" where
  "is_leap year = (year mod 4 = 0 \<and> (year mod 100 \<noteq> 0 \<or> year mod 400 = 0))"

definition days_before_year :: "int \<Rightarrow> int" where
  "days_before_year year =
     (let y = year - 1 in y * 365 + y div 4 - y div 100 + y div 400)"

definition DAYS_IN_MONTH :: "int list" where
  "DAYS_IN_MONTH = [-1, 31, 28, 31, 30, 31, 30, 31, 31, 30, 31, 30, 31]"

definition DAYS_BEFORE_MONTH :: "int list" where
  "DAYS_BEFORE_MONTH = [-1, 0, 31, 59, 90, 120, 151, 181, 212, 243, 273, 304, 334]"

definition days_in_month :: "int \<Rightarrow> int \<Rightarrow> int" where
  "days_in_month year month =
     (if month = 2 \<and> is_leap year then 29 else DAYS_IN_MONTH ! nat month)"

definition days_before_month :: "int \<Rightarrow> int \<Rightarrow> int" where
  "days_before_month year month =
     DAYS_BEFORE_MONTH ! nat month + (if month > 2 \<and> is_leap year then 1 else 0)"

definition ymd2ord :: "int \<Rightarrow> int \<Rightarrow> int \<Rightarrow> date" where
  "ymd2ord year month day = days_before_year year + days_before_month year month + day"

definition DI400Y :: int where "DI400Y = 146097"
definition DI100Y :: int where "DI100Y = 36524"
definition DI4Y :: int where "DI4Y = 1461"

text \<open>The month and the days preceding it, for the day \<open>n\<close> (from 0) of a year: the
  estimate \<^verbatim>\<open>(n + 50) >> 5\<close> is exact or one too large.\<close>

definition month_of_yday :: "int \<Rightarrow> bool \<Rightarrow> int \<times> int" where
  "month_of_yday n leapyear =
     (let month = (n + 50) div 32;
          preceding = DAYS_BEFORE_MONTH ! nat month
                        + (if month > 2 \<and> leapyear then 1 else 0)
      in if preceding > n
         then (month - 1,
               preceding - (DAYS_IN_MONTH ! nat (month - 1)
                              + (if month - 1 = 2 \<and> leapyear then 1 else 0)))
         else (month, preceding))"

definition ord2ymd :: "date \<Rightarrow> int \<times> int \<times> int" where
  "ord2ymd n0 =
     (let n = n0 - 1;
          n400 = n div DI400Y; n = n mod DI400Y;
          year = n400 * 400 + 1;
          n100 = n div DI100Y; n = n mod DI100Y;
          n4 = n div DI4Y; n = n mod DI4Y;
          n1 = n div 365; n = n mod 365;
          year = year + n100 * 100 + n4 * 4 + n1
      in if n1 = 4 \<or> n100 = 4 then (year - 1, 12, 31)
         else
           let leapyear = (n1 = 3 \<and> (n4 \<noteq> 24 \<or> n100 = 3));
               (month, preceding) = month_of_yday n leapyear
           in (year, month, n - preceding + 1))"

subsection \<open>Time zones and aware datetimes\<close>

text \<open>
  A \<^verbatim>\<open>tzinfo\<close> object is told apart by identity, as the library's comparison and
  subtraction do (\<^verbatim>\<open>mytz is ottz\<close>). \<open>LocalTz\<close> is the analyzer's own
  \<^verbatim>\<open>self.local_tz\<close> object (\<^verbatim>\<open>tz.gettz('America/Los_Angeles')\<close>); \<open>OtherTz i off\<close> is
  any other tzinfo object, \<open>i\<close> its identity and \<open>off\<close> the UTC offset in microseconds it
  reports for the datetime that carries it. A naive datetime has no tzinfo.
\<close>

datatype tzinfo = LocalTz | OtherTz nat int

record datetime =
  dt_wall :: int
  dt_tzinfo :: "tzinfo option"
  dt_fold :: bool

text \<open>
  The rules of the local zone come from the time zone database, which is not part of the
  program: they are a parameter. \<open>z_utcoffset w f\<close> is \<^verbatim>\<open>local_tz.utcoffset\<close> of the
  wall time \<open>w\<close> with fold \<open>f\<close>; \<open>z_fromutc u\<close> is \<^verbatim>\<open>local_tz.fromutc\<close> of the UTC
  time \<open>u\<close>: the local wall time and its fold.
\<close>

record zone =
  z_utcoffset :: "int \<Rightarrow> bool \<Rightarrow> int"
  z_fromutc :: "int \<Rightarrow> int \<times> bool"

definition timezone_utc :: tzinfo where
  "timezone_utc = OtherTz 0 0"

definition utcoffset :: "zone \<Rightarrow> datetime \<Rightarrow> int option" where
  "utcoffset z d =
     (case dt_tzinfo d of
        None \<Rightarrow> None
      | Some LocalTz \<Rightarrow> Some (z_utcoffset z (dt_wall d) (dt_fold d))
      | Some (OtherTz i off) \<Rightarrow> Some off)"

text \<open>\<^verbatim>\<open>a.tzinfo is b.tzinfo\<close>.\<close>

fun same_tz :: "tzinfo option \<Rightarrow> tzinfo option \<Rightarrow> bool" where
  "same_tz None None = True"
| "same_tz (Some LocalTz) (Some LocalTz) = True"
| "same_tz (Some (OtherTz i a)) (Some (OtherTz j b)) = (i = j)"
| "same_tz _ _ = False"

text \<open>
  \<^verbatim>\<open>a < b\<close> and \<^verbatim>\<open>a > b\<close> on datetimes (\<^verbatim>\<open>datetime._cmp\<close>): with the same tzinfo
  object the wall-clock fields are compared and the zone is ignored; otherwise both must be
  aware and the UTC instants are compared; a naive and an aware datetime raise TypeError.
\<close>

definition dt_lt :: "zone \<Rightarrow> datetime \<Rightarrow> datetime \<Rightarrow> py_error + bool" where
  "dt_lt z a b =
     (if same_tz (dt_tzinfo a) (dt_tzinfo b) then Inr (dt_wall a < dt_wall b)
      else case (utcoffset z a, utcoffset z b) of
             (Some oa, Some ob) \<Rightarrow> Inr (dt_wall a - oa < dt_wall b - ob)
           | _ \<Rightarrow> Inl TypeError)"

definition dt_gt :: "zone \<Rightarrow> datetime \<Rightarrow> datetime \<Rightarrow> py_error + bool" where
  "dt_gt z a b =
     (if same_tz (dt_tzinfo a) (dt_tzinfo b) then Inr (dt_wall a > dt_wall b)
      else case (utcoffset z a, utcoffset z b) of
             (Some oa, Some ob) \<Rightarrow> Inr (dt_wall a - oa > dt_wall b - ob)
           | _ \<Rightarrow> Inl TypeError)"

text \<open>
  \<^verbatim>\<open>a - b\<close> on datetimes: with the same tzinfo object the result is the difference of the
  wall-clock fields, with no time zone adjustment; otherwise the difference of the instants.
\<close>

definition wall_sub :: "datetime \<Rightarrow> datetime \<Rightarrow> timedelta" where
  "wall_sub a b = dt_wall a - dt_wall b"

definition dt_sub :: "zone \<Rightarrow> datetime \<Rightarrow> datetime \<Rightarrow> py_error + timedelta" where
  "dt_sub z a b =
     (if same_tz (dt_tzinfo a) (dt_tzinfo b) then Inr (wall_sub a b)
      else case (utcoffset z a, utcoffset z b) of
             (Some oa, Some ob) \<Rightarrow> Inr ((dt_wall a - oa) - (dt_wall b - ob))
           | _ \<Rightarrow> Inl TypeError)"

text \<open>
  \<^verbatim>\<open>d.replace(tzinfo=timezone.utc).astimezone(self.local_tz)\<close>: \<^verbatim>\<open>replace\<close> overwrites
  whatever tzinfo \<open>d\<close> had, so the wall-clock fields of \<open>d\<close> are read as UTC;
  \<^verbatim>\<open>astimezone\<close> subtracts the (zero) offset of \<^verbatim>\<open>timezone.utc\<close> and hands the result to
  \<^verbatim>\<open>local_tz.fromutc\<close>. (On a naive datetime \<^verbatim>\<open>astimezone\<close> would consult the system's
  zone; the analyzer only calls it right after \<^verbatim>\<open>replace\<close>, so that branch is never taken
  and is written here with offset 0.)
\<close>

definition replace_tzinfo :: "datetime \<Rightarrow> tzinfo \<Rightarrow> datetime" where
  "replace_tzinfo d tz = d\<lparr>dt_tzinfo := Some tz\<rparr>"

definition astimezone_local :: "zone \<Rightarrow> datetime \<Rightarrow> datetime" where
  "astimezone_local z d =
     (if dt_tzinfo d = Some LocalTz then d
      else let myoffset = (case utcoffset z d of Some off \<Rightarrow> off | None \<Rightarrow> 0);
               (w, f) = z_fromutc z (dt_wall d - myoffset)
           in \<lparr>dt_wall = w, dt_tzinfo = Some LocalTz, dt_fold = f\<rparr>)"

text \<open>\<^verbatim>\<open>datetime.combine(d, datetime.min.time(), tzinfo=self.local_tz)\<close>: midnight of the
  date, as a wall time of the local zone.\<close>

definition combine_local :: "date \<Rightarrow> datetime" where
  "combine_local n = \<lparr>dt_wall = (n - 1) * us_per_day, dt_tzinfo = Some LocalTz, dt_fold = False\<rparr>"

definition toordinal :: "datetime \<Rightarrow> date" where
  "toordinal d = dt_wall d div us_per_day + 1"

definition weekday :: "datetime \<Rightarrow> int" where
  "weekday d = (toordinal d + 6) mod 7"

text \<open>The UTC instant an aware datetime denotes (microseconds since 0001-01-01T00:00Z).\<close>

definition instant :: "zone \<Rightarrow> datetime \<Rightarrow> int option" where
  "instant z d = map_option (\<lambda>off. dt_wall d - off) (utcoffset z d)"


section \<open>CalendarAnalyzer.analyze\_events\<close>

text \<open>
  \<^verbatim>\<open>dtstart.dt\<close> is a \<^verbatim>\<open>date\<close> (an all-day event) or a \<^verbatim>\<open>datetime\<close>. A component
  as \<^verbatim>\<open>cal.walk()\<close> yields it: its name and the properties the analyzer reads, each
  possibly missing.
\<close>

datatype dt_value = DateV date | DateTimeV datetime

record component =
  comp_name :: string
  dtstart :: "dt_value option"
  dtend :: "dt_value option"
  summary :: "string option"
  description :: "string option"
  location :: "string option"

text \<open>A compiled pattern is used through \<^verbatim>\<open>regex.search(text)\<close> only: whether it finds a
  match somewhere in the text.\<close>

type_synonym pattern = "string \<Rightarrow> bool"

type_synonym event_tuple = "datetime \<times> string \<times> timedelta"

type_synonym events_data = "(string \<times> event_tuple list) list"

text \<open>\<^verbatim>\<open>str(component.get(key, ''))\<close>.\<close>

definition get_str :: "string option \<Rightarrow> string" where
  "get_str v = (case v of None \<Rightarrow> [] | Some s \<Rightarrow> s)"

text \<open>\<^verbatim>\<open>isinstance(v, datetime)\<close>.\<close>

definition is_datetime :: "dt_value \<Rightarrow> bool" where
  "is_datetime v = (case v of DateTimeV d \<Rightarrow> True | DateV n \<Rightarrow> False)"

text \<open>\<^verbatim>\<open>event_start + timedelta(hours=1)\<close>: a datetime moves by the hour (keeping its
  tzinfo, fold 0); a date moves by the timedelta's days, which are 0.\<close>

definition plus_timedelta :: "dt_value \<Rightarrow> timedelta \<Rightarrow> dt_value" where
  "plus_timedelta v td =
     (case v of
        DateTimeV d \<Rightarrow> DateTimeV (d\<lparr>dt_wall := dt_wall d + td, dt_fold := False\<rparr>)
      | DateV n \<Rightarrow> DateV (n + td_days td))"

text \<open>Lines 55--64: both ends are made datetimes of the local zone.\<close>

definition normalize_dt :: "zone \<Rightarrow> dt_value \<Rightarrow> datetime" where
  "normalize_dt z v =
     (case v of
        DateTimeV d \<Rightarrow> astimezone_local z (replace_tzinfo d timezone_utc)
      | DateV n \<Rightarrow> combine_local n)"

definition searchable_text :: "component \<Rightarrow> string" where
  "searchable_text c =
     get_str (summary c) @ '' '' @ get_str (description c) @ '' '' @ get_str (location c)"

text \<open>Line 49--53: the end of the event before normalisation.\<close>

definition raw_end :: "component \<Rightarrow> dt_value \<Rightarrow> dt_value" where
  "raw_end c event_start =
     (case dtend c of
        None \<Rightarrow> plus_timedelta event_start (timedelta_hours 1)
      | Some e \<Rightarrow> e)"

text \<open>
  Lines 41--74, the part of the loop body before the patterns are tried. \<open>Inr None\<close> is
  \<^verbatim>\<open>continue\<close>; otherwise the tuple to record and the text to search. The \<^verbatim>\<open>or\<close> of the
  window test evaluates its second comparison only when the first is false.
\<close>

definition event_of ::
  "zone \<Rightarrow> datetime \<Rightarrow> datetime \<Rightarrow> component \<Rightarrow> py_error + (event_tuple \<times> string) option" where
  "event_of z start_time end_time c =
     (if comp_name c \<noteq> ''VEVENT'' then Inr None
      else case dtstart c of
        None \<Rightarrow> Inr None
      | Some event_start0 \<Rightarrow>
          let event_end0 = raw_end c event_start0;
              is_all_day = \<not> is_datetime event_start0;
              event_start = normalize_dt z event_start0;
              event_end = normalize_dt z event_end0
          in py_bind (dt_lt z event_end start_time) (\<lambda>ends_before.
             if ends_before then Inr None
             else py_bind (dt_gt z event_start end_time) (\<lambda>starts_after.
               if starts_after then Inr None
               else py_bind (if is_all_day then Inr 0 else dt_sub z event_end event_start)
                 (\<lambda>duration.
                    Inr (Some ((event_start, get_str (summary c), duration),
                               searchable_text c))))))"

text \<open>Lines 76--80: the event is appended to the list of every pattern whose regex finds a
  match; the flag records whether any did.\<close>

fun match_patterns ::
  "(string \<times> pattern) list \<Rightarrow> string \<Rightarrow> event_tuple \<Rightarrow> events_data \<times> bool \<Rightarrow> events_data \<times> bool" where
  "match_patterns [] txt t (data, matched) = (data, matched)"
| "match_patterns ((pattern_name, regex) # ps) txt t (data, matched) =
     (if regex txt
      then match_patterns ps txt t (AList.map_entry pattern_name (\<lambda>l. l @ [t]) data, True)
      else match_patterns ps txt t (data, matched))"

text \<open>The two nested loops over the calendars and their components, on the state
  \<open>(events_data, unmatched_events)\<close>.\<close>

fun analyze_loop ::
  "zone \<Rightarrow> datetime \<Rightarrow> datetime \<Rightarrow> (string \<times> pattern) list \<Rightarrow> component list
     \<Rightarrow> events_data \<times> event_tuple list \<Rightarrow> py_error + (events_data \<times> event_tuple list)" where
  "analyze_loop z start_time end_time patterns [] st = Inr st"
| "analyze_loop z start_time end_time patterns (c # cs) (data, unmatched) =
     (case event_of z start_time end_time c of
        Inl e \<Rightarrow> Inl e
      | Inr None \<Rightarrow> analyze_loop z start_time end_time patterns cs (data, unmatched)
      | Inr (Some (t, txt)) \<Rightarrow>
          (case match_patterns patterns txt t (data, False) of
             (data', matched) \<Rightarrow>
               analyze_loop z start_time end_time patterns cs
                 (data', if matched then unmatched else unmatched @ [t])))"

text \<open>
  \<open>analyze_events\<close> returns \<^verbatim>\<open>events_data\<close>; the second component is the list
  \<^verbatim>\<open>unmatched_events\<close> that the function prints. \<open>patterns\<close> is the dict in its iteration
  order; \<open>calendars\<close> are the walks of the loaded calendar files.
\<close>

definition analyze_events ::
  "zone \<Rightarrow> component list list \<Rightarrow> datetime \<Rightarrow> datetime \<Rightarrow> (string \<times> pattern) list
     \<Rightarrow> py_error + (events_data \<times> event_tuple list)" where
  "analyze_events z calendars start_time end_time patterns =
     analyze_loop z start_time end_time patterns (concat calendars)
       (map (\<lambda>(pattern_name, regex). (pattern_name, [])) patterns, [])"


section \<open>The statistics functions\<close>

text \<open>
  Each statistics function maps over the pattern dict and builds, for one pattern, an inner
  dict. Dicts are association lists in insertion order. The inner values
  \<^verbatim>\<open>{'total_hours': .., 'avg_hours': .., ..}\<close> are records.
\<close>

record hour_stats =
  total_hours :: real
  avg_hours :: real

record day_stats = hour_stats +
  count :: int

record month_stats = hour_stats +
  event_count :: int

subsection \<open>get\_day\_stats\<close>

definition days :: "string list" where
  "days = [''Monday'', ''Tuesday'', ''Wednesday'', ''Thursday'', ''Friday'', ''Saturday'',
           ''Sunday'']"

text \<open>Lines 102--106 for the events of one pattern.\<close>

fun day_loop :: "(string \<times> day_stats) list \<Rightarrow> event_tuple list \<Rightarrow> (string \<times> day_stats) list" where
  "day_loop distribution [] = distribution"
| "day_loop distribution ((event_start, summ, duration) # es) =
     (let day = days ! nat (weekday event_start);
          hours = hours_of duration;
          distribution = AList.map_entry day (\<lambda>s. s\<lparr>count := count s + 1\<rparr>) distribution;
          distribution = AList.map_entry day (\<lambda>s. s\<lparr>total_hours := total_hours s + hours\<rparr>) distribution
      in day_loop distribution es)"

text \<open>Lines 110--114: the average is only computed for a positive count.\<close>

definition day_avg :: "day_stats \<Rightarrow> day_stats" where
  "day_avg s =
     (if count s > 0 then s\<lparr>avg_hours := total_hours s / real_of_int (count s)\<rparr> else s)"

definition day_stats_of :: "event_tuple list \<Rightarrow> (string \<times> day_stats) list" where
  "day_stats_of events =
     map (\<lambda>(day, s). (day, day_avg s))
       (day_loop (map (\<lambda>day. (day, \<lparr>total_hours = 0, avg_hours = 0, count = 0\<rparr>)) days) events)"

definition get_day_stats :: "events_data \<Rightarrow> (string \<times> (string \<times> day_stats) list) list" where
  "get_day_stats events_data = map (\<lambda>(pattern, events). (pattern, day_stats_of events)) events_data"

subsection \<open>get\_time\_spent\<close>

text \<open>\<^verbatim>\<open>sum((duration for _, _, duration in events), timedelta())\<close>.\<close>

definition time_spent_of :: "event_tuple list \<Rightarrow> timedelta" where
  "time_spent_of events = foldl (+) 0 (map (\<lambda>(event_start, summ, duration). duration) events)"

definition get_time_spent :: "events_data \<Rightarrow> (string \<times> timedelta) list" where
  "get_time_spent events_data = map (\<lambda>(pattern, events). (pattern, time_spent_of events)) events_data"

subsection \<open>get\_weekly\_stats\<close>

text \<open>
  \<^verbatim>\<open>d - timedelta\<close> moves the wall-clock fields and keeps the tzinfo.
  \<^verbatim>\<open>strftime('%Y-%m-%d')\<close> prints the year, month and day of the datetime's date; the key is
  held as that date. \<^verbatim>\<open>strftime('%Y-%m')\<close> prints its year and month; that key is held
  as the pair, which is what \<^verbatim>\<open>map(int, month_key.split('-'))\<close> reads back from the text.
\<close>

definition minus_timedelta :: "datetime \<Rightarrow> timedelta \<Rightarrow> datetime" where
  "minus_timedelta d td = d\<lparr>dt_wall := dt_wall d - td, dt_fold := False\<rparr>"

definition strftime_ymd :: "datetime \<Rightarrow> date" where
  "strftime_ymd d = toordinal d"

definition strftime_ym :: "datetime \<Rightarrow> int \<times> int" where
  "strftime_ym d = (case ord2ymd (toordinal d) of (year, month, day) \<Rightarrow> (year, month))"

definition week_key :: "datetime \<Rightarrow> date" where
  "week_key event_start =
     (let monday = minus_timedelta event_start (timedelta_days (weekday event_start))
      in strftime_ymd monday)"

fun week_loop :: "(date \<times> hour_stats) list \<Rightarrow> event_tuple list \<Rightarrow> (date \<times> hour_stats) list" where
  "week_loop ws [] = ws"
| "week_loop ws ((event_start, summ, duration) # es) =
     (let k = week_key event_start;
          ws = (if map_of ws k = None
                then AList.update k \<lparr>total_hours = 0, avg_hours = 0\<rparr> ws else ws);
          ws = AList.map_entry k (\<lambda>s. s\<lparr>total_hours := total_hours s + hours_of duration\<rparr>) ws
      in week_loop ws es)"

definition weekly_stats_of :: "event_tuple list \<Rightarrow> (date \<times> hour_stats) list" where
  "weekly_stats_of events =
     map (\<lambda>(k, week). (k, week\<lparr>avg_hours := total_hours week / 7\<rparr>)) (week_loop [] events)"

definition get_weekly_stats :: "events_data \<Rightarrow> (string \<times> (date \<times> hour_stats) list) list" where
  "get_weekly_stats events_data =
     map (\<lambda>(pattern, events). (pattern, weekly_stats_of events)) events_data"

subsection \<open>get\_monthly\_stats\<close>

text \<open>\<^verbatim>\<open>datetime(year, month, day)\<close>: a naive datetime at midnight.\<close>

definition datetime_ymd :: "int \<Rightarrow> int \<Rightarrow> int \<Rightarrow> datetime" where
  "datetime_ymd year month day =
     \<lparr>dt_wall = (ymd2ord year month day - 1) * us_per_day, dt_tzinfo = None, dt_fold = False\<rparr>"

text \<open>Lines 151--156. Both datetimes are naive, so the subtraction is that of the
  wall-clock fields.\<close>

definition days_in_month_of :: "int \<times> int \<Rightarrow> int" where
  "days_in_month_of month_key =
     (case month_key of (year, month) \<Rightarrow>
        let next_month = (if month = 12 then datetime_ymd (year + 1) 1 1
                          else datetime_ymd year (month + 1) 1)
        in td_days (wall_sub next_month (datetime_ymd year month 1)))"

fun month_loop ::
  "((int \<times> int) \<times> month_stats) list \<Rightarrow> event_tuple list \<Rightarrow> ((int \<times> int) \<times> month_stats) list" where
  "month_loop ms [] = ms"
| "month_loop ms ((event_start, summ, duration) # es) =
     (let month_key = strftime_ym event_start;
          ms = (if map_of ms month_key = None
                then AList.update month_key \<lparr>total_hours = 0, avg_hours = 0, event_count = 0\<rparr> ms
                else ms);
          ms = AList.map_entry month_key
                 (\<lambda>s. s\<lparr>total_hours := total_hours s + hours_of duration\<rparr>) ms;
          ms = AList.map_entry month_key (\<lambda>s. s\<lparr>event_count := event_count s + 1\<rparr>) ms
      in month_loop ms es)"

definition month_avg :: "int \<times> int \<Rightarrow> month_stats \<Rightarrow> month_stats" where
  "month_avg month_key stats =
     (let days_in_month = days_in_month_of month_key;
          weeks_in_month = real_of_int days_in_month / 7
      in stats\<lparr>avg_hours := total_hours stats / weeks_in_month\<rparr>)"

definition monthly_stats_of :: "event_tuple list \<Rightarrow> ((int \<times> int) \<times> month_stats) list" where
  "monthly_stats_of events =
     map (\<lambda>(month_key, stats). (month_key, month_avg month_key stats)) (month_loop [] events)"

definition get_monthly_stats ::
  "events_data \<Rightarrow> (string \<times> ((int \<times> int) \<times> month_stats) list) list" where
  "get_monthly_stats events_data =
     map (\<lambda>(pattern, events). (pattern, monthly_stats_of events)) events_data"


section \<open>load\_or\_generate\_patterns: reading patterns.txt\<close>










subsection \<open>A fragment of the regex library\<close>




text \<open>The search of a regex that is a plain literal: the literal occurs in the text.\<close>

fun contains :: "string \<Rightarrow> string \<Rightarrow> bool" where
  "contains sub [] = (sub = [])"
| "contains sub (c # cs) = (take (length sub) (c # cs) = sub \<or> contains sub cs)"



section \<open>Notions used in the statements\<close>

text \<open>An aware datetime carries a tzinfo.\<close>

definition aware :: "datetime \<Rightarrow> bool" where
  "aware d = (dt_tzinfo d \<noteq> None)"

text \<open>The events of a walk that reach the pattern loop, in order: the tuple each records
  and its searchable text.\<close>

definition events_in ::
  "zone \<Rightarrow> datetime \<Rightarrow> datetime \<Rightarrow> component list \<Rightarrow> (event_tuple \<times> string) list" where
  "events_in z start_time end_time cs =
     List.map_filter
       (\<lambda>c. case event_of z start_time end_time c of Inr (Some x) \<Rightarrow> Some x | _ \<Rightarrow> None) cs"

text \<open>What one event adds to the list under the key \<open>k\<close>: its tuple once for every
  pattern of that name that matches.\<close>

definition hits :: "(string \<times> pattern) list \<Rightarrow> string \<Rightarrow> string \<Rightarrow> event_tuple \<Rightarrow> event_tuple list" where
  "hits ps k txt t = concat (map (\<lambda>(n, regex). if n = k \<and> regex txt then [t] else []) ps)"

text \<open>The hours of a recorded event, the name of the weekday it starts on, and the tests
  that put it into the entry of a weekday, a week or a month.\<close>

definition event_hours :: "event_tuple \<Rightarrow> real" where
  "event_hours e = hours_of (snd (snd e))"

definition day_name :: "event_tuple \<Rightarrow> string" where
  "day_name e = days ! nat (weekday (fst e))"


definition in_week :: "date \<Rightarrow> event_tuple \<Rightarrow> bool" where
  "in_week k e = (week_key (fst e) = k)"

definition in_month :: "int \<times> int \<Rightarrow> event_tuple \<Rightarrow> bool" where
  "in_month k e = (strftime_ym (fst e) = k)"




text \<open>A zone whose \<^verbatim>\<open>fromutc\<close> and \<^verbatim>\<open>utcoffset\<close> agree: the local time that
  \<^verbatim>\<open>fromutc\<close> gives for a UTC time has that UTC time as its instant.\<close>

definition zone_ok :: "zone \<Rightarrow> bool" where
  "zone_ok z = (\<forall>u. (case z_fromutc z u of (w, f) \<Rightarrow> w - z_utcoffset z w f) = u)"

text \<open>The wall-clock count of \<^verbatim>\<open>datetime(year, month, day, hour, minute, second)\<close>.\<close>

definition wall_clock :: "int \<Rightarrow> int \<Rightarrow> int \<Rightarrow> int \<Rightarrow> int \<Rightarrow> int \<Rightarrow> int" where
  "wall_clock year month day hour minute second =
     ((ymd2ord year month day - 1) * 86400 + hour * 3600 + minute * 60 + second) * us_per_second"

text \<open>
  The rules of America/Los\_Angeles in force in 2024, for concrete evaluations: Pacific
  Standard Time (UTC-8), and Pacific Daylight Time (UTC-7) from 2024-03-10T10:00Z until
  2024-11-03T09:00Z; the hour 01:00--02:00 of 3 November occurs twice, the second time with
  fold 1. Outside 2024 the zone is given standard time.
\<close>

definition la_2024 :: zone where
  "la_2024 =
     \<lparr>z_utcoffset = (\<lambda>w f.
         if wall_clock 2024 3 10 3 0 0 \<le> w \<and> w < wall_clock 2024 11 3 1 0 0
         then timedelta_hours (-7)
         else if wall_clock 2024 11 3 1 0 0 \<le> w \<and> w < wall_clock 2024 11 3 2 0 0 \<and> \<not> f
         then timedelta_hours (-7)
         else timedelta_hours (-8)),
       z_fromutc = (\<lambda>u.
         if wall_clock 2024 3 10 10 0 0 \<le> u \<and> u < wall_clock 2024 11 3 9 0 0
         then (u + timedelta_hours (-7), False)
         else if wall_clock 2024 11 3 9 0 0 \<le> u \<and> u < wall_clock 2024 11 3 10 0 0
         then (u + timedelta_hours (-8), True)
         else (u + timedelta_hours (-8), False))\<rparr>"

text \<open>What one component contributes: the tuple it records, if it reaches the pattern
  loop at all.\<close>

definition recorded :: "zone \<Rightarrow> datetime \<Rightarrow> datetime \<Rightarrow> component \<Rightarrow> event_tuple option" where
  "recorded z start_time end_time c =
     (case event_of z start_time end_time c of Inr (Some (t, tx)) \<Rightarrow> Some t | _ \<Rightarrow> None)"

text \<open>The tuple of an event with the start value \<open>s\<close>, and the window test of line 66
  on its normalised ends.\<close>

definition tuple_of :: "zone \<Rightarrow> component \<Rightarrow> dt_value \<Rightarrow> event_tuple" where
  "tuple_of z c s =
     (normalize_dt z s, get_str (summary c),
      if is_datetime s then wall_sub (normalize_dt z (raw_end c s)) (normalize_dt z s) else 0)"

definition skipped :: "zone \<Rightarrow> datetime \<Rightarrow> datetime \<Rightarrow> component \<Rightarrow> dt_value \<Rightarrow> bool" where
  "skipped z start_time end_time c s =
     (dt_lt z (normalize_dt z (raw_end c s)) start_time = Inr True
      \<or> dt_gt z (normalize_dt z s) end_time = Inr True)"

text \<open>Reading a statistic under a key, 0 when the key is absent.\<close>

definition hours_at :: "('k \<times> 'a hour_stats_scheme) list \<Rightarrow> 'k \<Rightarrow> real" where
  "hours_at stats k = (case map_of stats k of None \<Rightarrow> 0 | Some s \<Rightarrow> total_hours s)"

definition count_at :: "('k \<times> day_stats) list \<Rightarrow> 'k \<Rightarrow> int" where
  "count_at stats k = (case map_of stats k of None \<Rightarrow> 0 | Some s \<Rightarrow> count s)"

definition event_count_at :: "('k \<times> month_stats) list \<Rightarrow> 'k \<Rightarrow> int" where
  "event_count_at stats k = (case map_of stats k of None \<Rightarrow> 0 | Some s \<Rightarrow> event_count s)"

subsection \<open>Example inputs\<close>

text \<open>The window of \<^verbatim>\<open>--start 2024-01-01 --end 2024-12-31\<close>, as the script builds it: both
  ends carry the zone object of the analyzer.\<close>

definition ex_start :: datetime where
  "ex_start = \<lparr>dt_wall = wall_clock 2024 1 1 0 0 0, dt_tzinfo = Some LocalTz, dt_fold = False\<rparr>"

definition ex_end :: datetime where
  "ex_end = \<lparr>dt_wall = wall_clock 2024 12 31 23 59 59, dt_tzinfo = Some LocalTz, dt_fold = False\<rparr>"

definition utc_datetime :: "int \<Rightarrow> int \<Rightarrow> int \<Rightarrow> int \<Rightarrow> int \<Rightarrow> int \<Rightarrow> datetime" where
  "utc_datetime year month day hour minute second =
     \<lparr>dt_wall = wall_clock year month day hour minute second,
      dt_tzinfo = Some timezone_utc, dt_fold = False\<rparr>"

definition local_datetime :: "int \<Rightarrow> int \<Rightarrow> int \<Rightarrow> int \<Rightarrow> int \<Rightarrow> int \<Rightarrow> datetime" where
  "local_datetime year month day hour minute second =
     \<lparr>dt_wall = wall_clock year month day hour minute second,
      dt_tzinfo = Some LocalTz, dt_fold = False\<rparr>"

text \<open>A meeting on Monday 2024-01-15, 18:00--19:30 UTC.\<close>

definition ex_meeting :: component where
  "ex_meeting =
     \<lparr>comp_name = ''VEVENT'',
      dtstart = Some (DateTimeV (utc_datetime 2024 1 15 18 0 0)),
      dtend = Some (DateTimeV (utc_datetime 2024 1 15 19 30 0)),
      summary = Some ''Team meeting'', description = None, location = Some ''Room 4''\<rparr>"

text \<open>An all-day event on Thursday 2024-02-29.\<close>

definition ex_holiday :: component where
  "ex_holiday =
     \<lparr>comp_name = ''VEVENT'',
      dtstart = Some (DateV (ymd2ord 2024 2 29)),
      dtend = Some (DateV (ymd2ord 2024 3 1)),
      summary = Some ''Holiday'', description = Some ''no meeting'', location = None\<rparr>"

text \<open>An event of 2023, an alarm, and an event with no DTSTART.\<close>

definition ex_old :: component where
  "ex_old =
     \<lparr>comp_name = ''VEVENT'',
      dtstart = Some (DateTimeV (utc_datetime 2023 6 1 12 0 0)),
      dtend = Some (DateTimeV (utc_datetime 2023 6 1 13 0 0)),
      summary = Some ''Old meeting'', description = None, location = None\<rparr>"

definition ex_alarm :: component where
  "ex_alarm =
     \<lparr>comp_name = ''VALARM'', dtstart = None, dtend = None,
      summary = None, description = Some ''meeting reminder'', location = None\<rparr>"

definition ex_nostart :: component where
  "ex_nostart =
     \<lparr>comp_name = ''VEVENT'', dtstart = None, dtend = None,
      summary = Some ''meeting draft'', description = None, location = None\<rparr>"

text \<open>A timed event with no DTEND, in the hour before the clocks go forward:
  \<^verbatim>\<open>DTSTART:20240310T093000Z\<close>.\<close>

definition ex_call :: component where
  "ex_call =
     \<lparr>comp_name = ''VEVENT'',
      dtstart = Some (DateTimeV (utc_datetime 2024 3 10 9 30 0)),
      dtend = None,
      summary = Some ''Call'', description = None, location = None\<rparr>"

text \<open>A timed event with no DTEND on an ordinary day: \<^verbatim>\<open>DTSTART:20240611T160000Z\<close>.\<close>

definition ex_lunch :: component where
  "ex_lunch =
     \<lparr>comp_name = ''VEVENT'',
      dtstart = Some (DateTimeV (utc_datetime 2024 6 11 16 0 0)),
      dtend = None,
      summary = Some ''Lunch'', description = None, location = None\<rparr>"

text \<open>An event that carries a zone: \<^verbatim>\<open>DTSTART;TZID=Europe/Berlin:20240115T100000\<close>, one hour
  ahead of UTC, so that it starts at 09:00 UTC.\<close>

definition berlin_datetime :: "int \<Rightarrow> int \<Rightarrow> int \<Rightarrow> int \<Rightarrow> int \<Rightarrow> int \<Rightarrow> datetime" where
  "berlin_datetime year month day hour minute second =
     \<lparr>dt_wall = wall_clock year month day hour minute second,
      dt_tzinfo = Some (OtherTz 1 (timedelta_hours 1)), dt_fold = False\<rparr>"

definition ex_berlin :: component where
  "ex_berlin =
     \<lparr>comp_name = ''VEVENT'',
      dtstart = Some (DateTimeV (berlin_datetime 2024 1 15 10 0 0)),
      dtend = Some (DateTimeV (berlin_datetime 2024 1 15 11 0 0)),
      summary = Some ''Standup'', description = None, location = None\<rparr>"

definition ex_calendars :: "component list list" where
  "ex_calendars = [[ex_alarm, ex_meeting, ex_old], [ex_nostart, ex_holiday, ex_lunch]]"

definition ex_patterns :: "(string \<times> pattern) list" where
  "ex_patterns = [(''meetings'', contains ''meeting''), (''rooms'', contains ''Room'')]"

text \<open>The tuples the three events of 2024 record under \<open>la_2024\<close>.\<close>

definition ex_meeting_tuple :: event_tuple where
  "ex_meeting_tuple = (local_datetime 2024 1 15 10 0 0, ''Team meeting'', 5400 * us_per_second)"

definition ex_holiday_tuple :: event_tuple where
  "ex_holiday_tuple = (local_datetime 2024 2 29 0 0 0, ''Holiday'', 0)"

definition ex_lunch_tuple :: event_tuple where
  "ex_lunch_tuple = (local_datetime 2024 6 11 9 0 0, ''Lunch'', timedelta_hours 1)"




section \<open>The analysis loop in closed form\<close>

lemma normalize_tz [simp]: "dt_tzinfo (normalize_dt z v) = Some LocalTz"
  by (cases v) (auto simp: normalize_dt_def astimezone_local_def replace_tzinfo_def combine_local_def utcoffset_def timezone_utc_def split: prod.splits)

lemma dt_lt_local: "dt_tzinfo a = Some LocalTz \<Longrightarrow> aware b \<Longrightarrow> \<exists>r. dt_lt z a b = Inr r"
  by (cases "dt_tzinfo b") (auto simp: dt_lt_def aware_def utcoffset_def split: tzinfo.splits)

lemma dt_gt_local: "dt_tzinfo a = Some LocalTz \<Longrightarrow> aware b \<Longrightarrow> \<exists>r. dt_gt z a b = Inr r"
  by (cases "dt_tzinfo b") (auto simp: dt_gt_def aware_def utcoffset_def split: tzinfo.splits)

lemma dt_sub_local: "dt_tzinfo a = Some LocalTz \<Longrightarrow> dt_tzinfo b = Some LocalTz \<Longrightarrow> dt_sub z a b = Inr (wall_sub a b)"
  by (simp add: dt_sub_def)

lemma event_of_total:
  assumes "aware start_time" "aware end_time"
  shows "\<exists>r. event_of z start_time end_time c = Inr r"
proof -
  have a: "\<And>v. \<exists>r. dt_lt z (normalize_dt z v) start_time = Inr r"
    using assms by (simp add: dt_lt_local)
  have b: "\<And>v. \<exists>r. dt_gt z (normalize_dt z v) end_time = Inr r"
    using assms by (simp add: dt_gt_local)
  show ?thesis
  proof (cases "comp_name c \<noteq> ''VEVENT'' \<or> dtstart c = None")
    case True
    then show ?thesis by (auto simp: event_of_def)
  next
    case False
    then obtain s where s: "dtstart c = Some s" and n: "comp_name c = ''VEVENT''" by auto
    obtain r1 where r1: "dt_lt z (normalize_dt z (raw_end c s)) start_time = Inr r1" using a by blast
    obtain r2 where r2: "dt_gt z (normalize_dt z s) end_time = Inr r2" using b by blast
    show ?thesis
      by (simp add: event_of_def s n r1 r2 py_bind_def Let_def dt_sub_local)
  qed
qed

lemma map_entry_distinct:
  "distinct (map fst al) \<Longrightarrow>
   AList.map_entry k f al = map (\<lambda>(k', v). (k', if k' = k then f v else v)) al"
proof (induction al)
  case Nil
  then show ?case by simp
next
  case (Cons p ps)
  obtain a b where p: "p = (a, b)" by (cases p)
  show ?case
  proof (cases "a = k")
    case True
    with Cons.prems p have "k \<notin> fst ` set ps" by auto
    then have "map (\<lambda>(k', v). (k', if k' = k then f v else v)) ps = ps"
      by (intro map_idI) force
    with True p show ?thesis by simp
  next
    case False
    with Cons p show ?thesis by simp
  qed
qed

lemma match_patterns_closed:
  "distinct (map fst data) \<Longrightarrow>
   match_patterns ps txt t (data, m) =
     (map (\<lambda>(k, l). (k, l @ hits ps k txt t)) data, m \<or> list_ex (\<lambda>(n, regex). regex txt) ps)"
proof (induction ps arbitrary: data m)
  case Nil
  then show ?case by (simp add: hits_def)
next
  case (Cons p ps)
  obtain n regex where p: "p = (n, regex)" by (cases p)
  show ?case
  proof (cases "regex txt")
    case True
    have d: "distinct (map fst (AList.map_entry n (\<lambda>l. l @ [t]) data))"
      using Cons.prems by (simp add: map_entry_distinct o_def case_prod_unfold)
    show ?thesis
      using True p Cons.IH[OF d] Cons.prems
      by (simp add: map_entry_distinct hits_def o_def case_prod_unfold)
  next
    case False
    then show ?thesis using p Cons by (simp add: hits_def)
  qed
qed

lemma events_in_Cons:
  "events_in z st en (c # cs) =
     (case event_of z st en c of Inr (Some x) \<Rightarrow> x # events_in z st en cs | _ \<Rightarrow> events_in z st en cs)"
  by (simp add: events_in_def List.map_filter_simps split: sum.splits option.splits)

lemma events_in_Nil [simp]: "events_in z st en [] = []"
  by (simp add: events_in_def List.map_filter_simps)

lemma analyze_loop_closed:
  assumes "aware st" "aware en"
  shows "distinct (map fst data) \<Longrightarrow>
    analyze_loop z st en ps cs (data, un) =
      Inr (map (\<lambda>(k, l). (k, l @ concat (map (\<lambda>(t, txt). hits ps k txt t) (events_in z st en cs)))) data,
           un @ map fst (filter (\<lambda>(t, txt). \<not> list_ex (\<lambda>(n, regex). regex txt) ps) (events_in z st en cs)))"
proof (induction cs arbitrary: data un)
  case Nil
  then show ?case by simp
next
  case (Cons c cs)
  obtain r where r: "event_of z st en c = Inr r"
    using event_of_total[OF assms] by blast
  show ?case
  proof (cases r)
    case None
    with r Cons show ?thesis by (simp add: events_in_Cons)
  next
    case (Some x)
    obtain t tx where x: "x = (t, tx)" by (cases x)
    let ?data' = "map (\<lambda>(k, l). (k, l @ hits ps k tx t)) data"
    have d: "distinct (map fst ?data')"
      using Cons.prems by (simp add: o_def case_prod_unfold)
    show ?thesis
      using r Some x Cons.prems Cons.IH[OF d]
      by (simp add: events_in_Cons match_patterns_closed o_def case_prod_unfold)
  qed
qed

lemma hits_distinct:
  "distinct (map fst ps) \<Longrightarrow> (n, regex) \<in> set ps \<Longrightarrow>
   hits ps n txt t = (if regex txt then [t] else [])"
proof (induction ps)
  case Nil
  then show ?case by simp
next
  case (Cons p ps)
  obtain a b where p: "p = (a, b)" by (cases p)
  show ?case
  proof (cases "(n, regex) = p")
    case True
    with Cons.prems p have "n \<notin> fst ` set ps" by auto
    then have "hits ps n txt t = []"
      by (force simp: hits_def)
    with True p show ?thesis by (auto simp: hits_def)
  next
    case False
    with Cons.prems p have in_ps: "(n, regex) \<in> set ps" and ne: "a \<noteq> n"
      by (auto simp: rev_image_eqI)
    with Cons p show ?thesis by (auto simp: hits_def)
  qed
qed

lemma concat_hits:
  "concat (map (\<lambda>(t, txt). if regex txt then [t] else []) evs) =
     map fst (filter (\<lambda>(t, txt). regex txt) evs)"
  by (induction evs) auto

lemma analyze_events_closed:
  assumes "aware st" "aware en" "distinct (map fst ps)"
  shows "analyze_events z cals st en ps =
     Inr (map (\<lambda>(n, regex). (n, map fst (filter (\<lambda>(t, txt). regex txt) (events_in z st en (concat cals))))) ps,
          map fst (filter (\<lambda>(t, txt). \<not> list_ex (\<lambda>(n, regex). regex txt) ps) (events_in z st en (concat cals))))"
proof -
  have d: "distinct (map fst (map (\<lambda>(pattern_name, regex). (pattern_name, [])) ps :: events_data))"
    using assms(3) by (simp add: o_def case_prod_unfold)
  have "map (\<lambda>(k, l). (k, l @ concat (map (\<lambda>(t, txt). hits ps k txt t) evs)))
          (map (\<lambda>(pattern_name, regex). (pattern_name, [])) ps) =
        map (\<lambda>(n, regex). (n, map fst (filter (\<lambda>(t, txt). regex txt) evs))) ps" for evs :: "(event_tuple \<times> string) list"
  proof -
    have "concat (map (\<lambda>(t, txt). hits ps n txt t) evs) = map fst (filter (\<lambda>(t, txt). regex txt) evs)"
      if "(n, regex) \<in> set ps" for n regex
      using hits_distinct[OF assms(3) that] by (simp add: concat_hits)
    then show ?thesis by (auto simp: o_def)
  qed
  then show ?thesis
    unfolding analyze_events_def analyze_loop_closed[OF assms(1,2) d] by simp
qed

section \<open>The statistics loops in closed form\<close>

lemma day_loop_closed:
  "distinct (map fst distribution) \<Longrightarrow>
   day_loop distribution es =
     map (\<lambda>(k, s). (k, s\<lparr>total_hours := foldl (+) (total_hours s) (map event_hours (filter (\<lambda>e. day_name e = k) es)),
                          count := count s + int (length (filter (\<lambda>e. day_name e = k) es))\<rparr>)) distribution"
proof (induction es arbitrary: distribution)
  case Nil
  then show ?case by (simp add: case_prod_unfold)
next
  case (Cons e es)
  obtain st sm du where e: "e = (st, sm, du)" by (cases e)
  let ?d1 = "AList.map_entry (day_name e) (\<lambda>s. s\<lparr>count := count s + 1\<rparr>) distribution"
  let ?d2 = "AList.map_entry (day_name e) (\<lambda>s. s\<lparr>total_hours := total_hours s + hours_of du\<rparr>) ?d1"
  have d1: "distinct (map fst ?d1)" using Cons.prems by (rule AList.distinct_map_entry)
  have d2: "distinct (map fst ?d2)" using d1 by (rule AList.distinct_map_entry)
  have step: "day_loop distribution (e # es) = day_loop ?d2 es"
    by (simp add: e day_name_def Let_def)
  have d2_eq: "?d2 = map (\<lambda>(k, s). (k, if k = day_name e
                   then s\<lparr>total_hours := total_hours s + hours_of du, count := count s + 1\<rparr> else s)) distribution"
    unfolding map_entry_distinct[OF d1] unfolding map_entry_distinct[OF Cons.prems]
    by (simp add: o_def case_prod_unfold)
  have h: "event_hours e = hours_of du" by (simp add: e event_hours_def)
  show ?case
    unfolding step Cons.IH[OF d2] unfolding d2_eq
    by (auto simp: o_def case_prod_unfold h)
qed

lemma weekday_range: "0 \<le> weekday d \<and> weekday d < 7"
  by (simp add: weekday_def)



lemma week_loop_lookup:
  "map_of (week_loop ws es) k =
     (case map_of ws k of
        None \<Rightarrow> (if filter (in_week k) es = [] then None
                 else Some \<lparr>total_hours = foldl (+) 0 (map event_hours (filter (in_week k) es)), avg_hours = 0\<rparr>)
      | Some s \<Rightarrow> Some (s\<lparr>total_hours := foldl (+) (total_hours s) (map event_hours (filter (in_week k) es))\<rparr>))"
proof (induction es arbitrary: ws)
  case Nil
  then show ?case by (simp split: option.splits)
next
  case (Cons e es)
  obtain st sm du where e: "e = (st, sm, du)" by (cases e)
  have h: "event_hours e = hours_of du" by (simp add: e event_hours_def)
  have w: "in_week k e = (week_key st = k)" by (simp add: e in_week_def)
  show ?case
    unfolding e week_loop.simps Let_def Cons.IH
    unfolding e[symmetric]
    by (auto simp: AList.map_of_map_entry AList.update_conv' h w split: option.splits)
qed

lemma week_loop_distinct:
  "distinct (map fst ws) \<Longrightarrow> distinct (map fst (week_loop ws es))"
proof (induction es arbitrary: ws)
  case Nil
  then show ?case by simp
next
  case (Cons e es)
  obtain st sm du where e: "e = (st, sm, du)" by (cases e)
  show ?case
    unfolding e week_loop.simps Let_def
    by (intro Cons.IH AList.distinct_map_entry) (auto simp: AList.distinct_update Cons.prems)
qed

lemma map_of_map_values:
  "map_of (map (\<lambda>(k, v). (k, f k v)) xs) k = map_option (f k) (map_of xs k)"
  by (induction xs) auto

lemma weekly_stats_closed:
  "map_of (weekly_stats_of events) k =
     (if filter (in_week k) events = [] then None
      else Some \<lparr>total_hours = foldl (+) 0 (map event_hours (filter (in_week k) events)),
                 avg_hours = foldl (+) 0 (map event_hours (filter (in_week k) events)) / 7\<rparr>)"
  unfolding weekly_stats_of_def map_of_map_values week_loop_lookup by simp

lemma weekly_stats_distinct: "distinct (map fst (weekly_stats_of events))"
  using week_loop_distinct[of "[]" events] by (simp add: weekly_stats_of_def o_def case_prod_unfold)

lemma month_loop_lookup:
  "map_of (month_loop ms es) k =
     (case map_of ms k of
        None \<Rightarrow> (if filter (in_month k) es = [] then None
                 else Some \<lparr>total_hours = foldl (+) 0 (map event_hours (filter (in_month k) es)), avg_hours = 0,
                            event_count = int (length (filter (in_month k) es))\<rparr>)
      | Some s \<Rightarrow> Some (s\<lparr>total_hours := foldl (+) (total_hours s) (map event_hours (filter (in_month k) es)),
                          event_count := event_count s + int (length (filter (in_month k) es))\<rparr>))"
proof (induction es arbitrary: ms)
  case Nil
  then show ?case by (simp split: option.splits)
next
  case (Cons e es)
  obtain st sm du where e: "e = (st, sm, du)" by (cases e)
  have h: "event_hours e = hours_of du" by (simp add: e event_hours_def)
  have w: "in_month k e = (strftime_ym st = k)" by (simp add: e in_month_def)
  show ?case
    unfolding e month_loop.simps Let_def Cons.IH
    unfolding e[symmetric]
    by (auto simp: AList.map_of_map_entry AList.update_conv' h w split: option.splits)
qed

lemma month_loop_distinct:
  "distinct (map fst ms) \<Longrightarrow> distinct (map fst (month_loop ms es))"
proof (induction es arbitrary: ms)
  case Nil
  then show ?case by simp
next
  case (Cons e es)
  obtain st sm du where e: "e = (st, sm, du)" by (cases e)
  show ?case
    unfolding e month_loop.simps Let_def
    by (intro Cons.IH AList.distinct_map_entry) (auto simp: AList.distinct_update Cons.prems)
qed

lemma monthly_stats_closed:
  "map_of (monthly_stats_of events) k =
     (if filter (in_month k) events = [] then None
      else Some \<lparr>total_hours = foldl (+) 0 (map event_hours (filter (in_month k) events)),
                 avg_hours = foldl (+) 0 (map event_hours (filter (in_month k) events))
                               / (real_of_int (days_in_month_of k) / 7),
                 event_count = int (length (filter (in_month k) events))\<rparr>)"
  unfolding monthly_stats_of_def map_of_map_values month_loop_lookup by (simp add: month_avg_def)

lemma monthly_stats_distinct: "distinct (map fst (monthly_stats_of events))"
  using month_loop_distinct[of "[]" events] by (simp add: monthly_stats_of_def o_def case_prod_unfold)

section \<open>Calendar arithmetic\<close>

lemma month_cases:
  "1 \<le> (m::int) \<Longrightarrow> m \<le> 12 \<Longrightarrow>
   m = 1 \<or> m = 2 \<or> m = 3 \<or> m = 4 \<or> m = 5 \<or> m = 6 \<or> m = 7 \<or> m = 8 \<or> m = 9 \<or> m = 10 \<or> m = 11 \<or> m = 12"
  by arith

lemma days_in_month_values:
  assumes "1 \<le> m" "m \<le> 12"
  shows "days_in_month y m =
     (if m = 2 then (if is_leap y then 29 else 28)
      else if m = 4 \<or> m = 6 \<or> m = 9 \<or> m = 11 then 30 else 31)"
  using month_cases[OF assms]
  by (elim disjE) (simp_all add: days_in_month_def DAYS_IN_MONTH_def)

lemma toordinal_minus_days:
  "toordinal (minus_timedelta d (timedelta_days k)) = toordinal d - k"
proof -
  have "(dt_wall d - k * us_per_day) div us_per_day = dt_wall d div us_per_day - k"
    by (simp add: us_per_day_def us_per_second_def)
  then show ?thesis by (simp add: toordinal_def minus_timedelta_def timedelta_days_def)
qed

lemma week_key_eq: "week_key d = toordinal d - weekday d"
  by (simp add: week_key_def strftime_ymd_def toordinal_minus_days)

lemma monday_arith:
  "((t - (t + 6) mod 7) + 6) mod 7 = 0 \<and> t - (t + 6) mod 7 \<le> t \<and> t < t - (t + 6) mod 7 + 7" for t :: int
  by presburger

lemma toordinal_combine: "toordinal (combine_local n) = n"
  by (simp add: toordinal_def combine_local_def us_per_day_def us_per_second_def)

lemma week_key_monday:
  "(week_key d + 6) mod 7 = 0 \<and> week_key d \<le> toordinal d \<and> toordinal d < week_key d + 7"
  unfolding week_key_eq weekday_def by (rule monday_arith)

lemma div_succ:
  fixes a n :: int
  assumes "0 < n"
  shows "(a + 1) div n = a div n + (if (a + 1) mod n = 0 then 1 else 0)"
proof -
  define q r where "q = a div n" and "r = a mod n"
  have a: "a = q * n + r" by (simp add: q_def r_def)
  have r: "0 \<le> r" "r < n" using assms by (simp_all add: r_def)
  show ?thesis
  proof (cases "r + 1 = n")
    case True
    then have "a + 1 = (q + 1) * n" using a by (simp add: algebra_simps)
    then have "(a + 1) div n = q + 1" "(a + 1) mod n = 0" using assms by simp_all
    then show ?thesis by (simp add: q_def)
  next
    case False
    with r have r1: "0 \<le> r + 1" "r + 1 < n" by simp_all
    have e: "a + 1 = (r + 1) + q * n" using a by simp
    have "(a + 1) div n = q" unfolding e using r1 assms by simp
    moreover have "(a + 1) mod n = r + 1" unfolding e using r1 by simp
    ultimately show ?thesis using r by (simp add: q_def)
  qed
qed

lemma days_before_year_Suc:
  "days_before_year (year + 1) = days_before_year year + (if is_leap year then 366 else 365)"
proof -
  define a b c where "a = (year - 1) div 4" and "b = (year - 1) div 100" and "c = (year - 1) div 400"
  define p4 p100 p400 where "p4 = (year mod 4 = 0)" and "p100 = (year mod 100 = 0)"
    and "p400 = (year mod 400 = 0)"
  have h4: "year div 4 = a + (if p4 then 1 else 0)"
    using div_succ[of 4 "year - 1"] by (simp add: a_def p4_def)
  have h100: "year div 100 = b + (if p100 then 1 else 0)"
    using div_succ[of 100 "year - 1"] by (simp add: b_def p100_def)
  have h400: "year div 400 = c + (if p400 then 1 else 0)"
    using div_succ[of 400 "year - 1"] by (simp add: c_def p400_def)
  have m1: "p100 \<Longrightarrow> p4"
    unfolding p100_def p4_def using mod_mod_cancel[of 4 100 year] by simp
  have m2: "p400 \<Longrightarrow> p100"
    unfolding p100_def p400_def using mod_mod_cancel[of 100 400 year] by simp
  have l: "is_leap year = (p4 \<and> (\<not> p100 \<or> p400))"
    by (simp add: is_leap_def p4_def p100_def p400_def)
  have n: "days_before_year (year + 1) = year * 365 + year div 4 - year div 100 + year div 400"
    by (simp add: days_before_year_def Let_def)
  have o: "days_before_year year = (year - 1) * 365 + a - b + c"
    by (simp add: days_before_year_def a_def b_def c_def Let_def)
  show ?thesis
    unfolding n o l h4 h100 h400 using m1 m2 by (cases p4; cases p100; cases p400) simp_all
qed

lemma days_in_month_of_eq:
  assumes "1 \<le> m" "m \<le> 12"
  shows "days_in_month_of (y, m) = days_in_month y m"
proof -
  have td: "td_days (a * us_per_day - b * us_per_day) = a - b" for a b
  proof -
    have "a * us_per_day - b * us_per_day = (a - b) * us_per_day" by (simp add: algebra_simps)
    then show ?thesis by (simp add: td_days_def us_per_day_def us_per_second_def)
  qed
  from month_cases[OF assms] show ?thesis
    by (elim disjE)
       (simp_all add: days_in_month_of_def datetime_ymd_def wall_sub_def td ymd2ord_def
          days_before_month_def DAYS_BEFORE_MONTH_def days_in_month_def DAYS_IN_MONTH_def
          days_before_year_Suc)
qed

lemma month_guess_range:
  fixes n :: int
  assumes "0 \<le> n" "n < 365"
  shows "1 \<le> (n + 50) div 32 \<and> (n + 50) div 32 \<le> 12"
proof -
  have "50 div 32 \<le> (n + 50) div (32::int)" using assms by (intro zdiv_mono1) simp_all
  moreover have "(n + 50) div 32 \<le> 414 div (32::int)" using assms by (intro zdiv_mono1) simp_all
  ultimately show ?thesis by simp
qed

lemma month_of_yday_range:
  fixes n :: int
  assumes "0 \<le> n" "n < 365"
  shows "1 \<le> fst (month_of_yday n leapyear) \<and> fst (month_of_yday n leapyear) \<le> 12"
proof -
  define month where "month = (n + 50) div 32"
  define c where "c = (DAYS_BEFORE_MONTH ! nat month + (if month > 2 \<and> leapyear then 1 else 0) > n)"
  have r: "1 \<le> month" "month \<le> 12" using month_guess_range[OF assms] by (simp_all add: month_def)
  have one: "\<not> c" if "month = 1"
    using assms that by (simp add: c_def DAYS_BEFORE_MONTH_def)
  have f: "fst (month_of_yday n leapyear) = (if c then month - 1 else month)"
    by (simp add: month_of_yday_def Let_def month_def c_def)
  show ?thesis
  proof (cases c)
    case True
    then have "month \<noteq> 1" using one by blast
    with r True show ?thesis unfolding f by simp
  next
    case False
    with r show ?thesis unfolding f by simp
  qed
qed

lemma ord2ymd_month: "ord2ymd n = (y, m, d) \<Longrightarrow> 1 \<le> m \<and> m \<le> 12"
proof -
  assume a: "ord2ymd n = (y, m, d)"
  define k where "k = (n - 1) mod DI400Y mod DI100Y mod DI4Y mod 365"
  have k: "0 \<le> k" "k < 365" by (simp_all add: k_def)
  show ?thesis
  proof (cases "(n - 1) mod DI400Y mod DI100Y mod DI4Y div 365 = 4 \<or> (n - 1) mod DI400Y div DI100Y = 4")
    case True
    with a show ?thesis by (simp add: ord2ymd_def Let_def)
  next
    case False
    with a have "\<exists>l. m = fst (month_of_yday k l)"
      unfolding ord2ymd_def Let_def k_def[symmetric]
      by (auto split: prod.splits) (metis fst_conv)
    then show ?thesis using month_of_yday_range[OF k] by auto
  qed
qed

section \<open>The example inputs evaluated\<close>

lemmas ex_defs = ex_start_def ex_end_def ex_meeting_def ex_holiday_def ex_old_def ex_alarm_def ex_nostart_def
  ex_call_def ex_lunch_def ex_berlin_def utc_datetime_def local_datetime_def berlin_datetime_def
  ex_meeting_tuple_def ex_holiday_tuple_def ex_lunch_tuple_def

lemmas cal_defs = wall_clock_def ymd2ord_def days_before_year_def days_before_month_def DAYS_BEFORE_MONTH_def
  is_leap_def us_per_second_def us_per_day_def timedelta_hours_def

lemmas ev_defs = event_of_def raw_end_def normalize_dt_def astimezone_local_def replace_tzinfo_def timezone_utc_def
  utcoffset_def combine_local_def dt_lt_def dt_gt_def dt_sub_def wall_sub_def py_bind_def is_datetime_def
  plus_timedelta_def td_days_def searchable_text_def get_str_def la_2024_def

lemma ev_meeting: "event_of la_2024 ex_start ex_end ex_meeting = Inr (Some (ex_meeting_tuple, ''Team meeting  Room 4''))"
  by (simp add: ex_defs cal_defs ev_defs Let_def)

lemma ev_holiday: "event_of la_2024 ex_start ex_end ex_holiday = Inr (Some (ex_holiday_tuple, ''Holiday no meeting ''))"
  by (simp add: ex_defs cal_defs ev_defs Let_def)

lemma ev_lunch: "event_of la_2024 ex_start ex_end ex_lunch = Inr (Some (ex_lunch_tuple, ''Lunch  ''))"
  by (simp add: ex_defs cal_defs ev_defs Let_def)

lemma ev_old: "event_of la_2024 ex_start ex_end ex_old = Inr None"
  by (simp add: ex_defs cal_defs ev_defs Let_def)

lemma ev_alarm: "event_of la_2024 ex_start ex_end ex_alarm = Inr None"
  by (simp add: ex_defs ev_defs)

lemma ev_nostart: "event_of la_2024 ex_start ex_end ex_nostart = Inr None"
  by (simp add: ex_defs ev_defs)

lemma event_of_explicit:
  assumes "aware st" "aware en"
  shows "event_of z st en c =
     Inr (if comp_name c \<noteq> ''VEVENT'' then None
          else case dtstart c of
                 None \<Rightarrow> None
               | Some s \<Rightarrow> if skipped z st en c s then None
                           else Some (tuple_of z c s, searchable_text c))"
proof (cases "comp_name c \<noteq> ''VEVENT'' \<or> dtstart c = None")
  case True
  then show ?thesis by (auto simp: event_of_def)
next
  case False
  then obtain s where s: "dtstart c = Some s" and n: "comp_name c = ''VEVENT''" by auto
  obtain r1 where r1: "dt_lt z (normalize_dt z (raw_end c s)) st = Inr r1"
    using dt_lt_local[of "normalize_dt z (raw_end c s)" st z] assms by auto
  obtain r2 where r2: "dt_gt z (normalize_dt z s) en = Inr r2"
    using dt_gt_local[of "normalize_dt z s" en z] assms by auto
  show ?thesis
    by (simp add: event_of_def s n r1 r2 py_bind_def Let_def dt_sub_local skipped_def tuple_of_def)
qed

lemma event_of_text:
  "event_of z st en c = Inr (Some (t, tx)) \<Longrightarrow> tx = searchable_text c"
  by (auto simp: event_of_def py_bind_def Let_def split: if_splits option.splits sum.splits)

lemma filter_events_in:
  "map fst (filter (\<lambda>(t, tx). P tx) (events_in z st en cs)) =
     List.map_filter (\<lambda>c. if P (searchable_text c) then recorded z st en c else None) cs"
proof (induction cs)
  case Nil
  then show ?case by (simp add: List.map_filter_simps)
next
  case (Cons c cs)
  show ?case
  proof (cases "event_of z st en c")
    case (Inl e)
    then show ?thesis using Cons by (simp add: events_in_Cons List.map_filter_simps recorded_def)
  next
    case (Inr r)
    show ?thesis
    proof (cases r)
      case None
      with Inr show ?thesis using Cons by (simp add: events_in_Cons List.map_filter_simps recorded_def)
    next
      case (Some x)
      obtain t tx where x: "x = (t, tx)" by (cases x)
      have "tx = searchable_text c" using Inr Some x event_of_text by blast
      with Inr Some x show ?thesis using Cons
        by (simp add: events_in_Cons List.map_filter_simps recorded_def)
    qed
  qed
qed

lemma ex_aware: "aware ex_start" "aware ex_end"
  by (simp_all add: aware_def ex_start_def ex_end_def)

lemma ex_recorded:
  "recorded la_2024 ex_start ex_end ex_meeting = Some ex_meeting_tuple"
  "recorded la_2024 ex_start ex_end ex_holiday = Some ex_holiday_tuple"
  "recorded la_2024 ex_start ex_end ex_lunch = Some ex_lunch_tuple"
  "recorded la_2024 ex_start ex_end ex_old = None"
  "recorded la_2024 ex_start ex_end ex_alarm = None"
  "recorded la_2024 ex_start ex_end ex_nostart = None"
  by (simp_all add: recorded_def ev_meeting ev_holiday ev_lunch ev_old ev_alarm ev_nostart)

lemma ex_texts:
  "searchable_text ex_meeting = ''Team meeting  Room 4''"
  "searchable_text ex_holiday = ''Holiday no meeting ''"
  "searchable_text ex_lunch = ''Lunch  ''"
  "searchable_text ex_old = ''Old meeting  ''"
  "searchable_text ex_alarm = '' meeting reminder ''"
  "searchable_text ex_nostart = ''meeting draft  ''"
  by (simp_all add: searchable_text_def get_str_def ex_defs)

lemma recorded_explicit:
  assumes "aware st" "aware en"
  shows "recorded z st en c =
     (if comp_name c = ''VEVENT''
      then case dtstart c of
             None \<Rightarrow> None
           | Some s \<Rightarrow> if skipped z st en c s then None else Some (tuple_of z c s)
      else None)"
  unfolding recorded_def event_of_explicit[OF assms]
  by (simp split: option.splits)

lemma set_events_in:
  "fst ` set (events_in z st en cs) = {t. \<exists>c\<in>set cs. recorded z st en c = Some t}"
proof (induction cs)
  case Nil
  then show ?case by simp
next
  case (Cons c cs)
  show ?case
  proof (cases "recorded z st en c")
    case None
    then have "events_in z st en (c # cs) = events_in z st en cs"
      by (auto simp: events_in_Cons recorded_def split: sum.splits option.splits)
    with None Cons show ?thesis by auto
  next
    case (Some t)
    then obtain tx where "events_in z st en (c # cs) = (t, tx) # events_in z st en cs"
      by (auto simp: events_in_Cons recorded_def split: sum.splits option.splits)
    with Some Cons show ?thesis by auto
  qed
qed

lemma unmatched_events_in:
  "map fst (filter (\<lambda>(t, tx). \<not> list_ex (\<lambda>(n, regex). regex tx) ps) (events_in z st en cs)) =
     List.map_filter
       (\<lambda>c. if list_ex (\<lambda>(n, regex). regex (searchable_text c)) ps then None
            else recorded z st en c) cs"
proof -
  have e: "(\<lambda>c. if \<not> list_ex (\<lambda>(n, regex). regex (searchable_text c)) ps then recorded z st en c else None)
         = (\<lambda>c. if list_ex (\<lambda>(n, regex). regex (searchable_text c)) ps then None else recorded z st en c)"
    by auto
  show ?thesis
    using filter_events_in[of "\<lambda>tx. \<not> list_ex (\<lambda>(n, regex). regex tx) ps" z st en cs]
    unfolding e .
qed

lemma la_2024_ok: "zone_ok la_2024"
  unfolding zone_ok_def la_2024_def
  by (auto simp: cal_defs)

lemma normalize_datetime:
  "normalize_dt z (DateTimeV d) =
     \<lparr>dt_wall = fst (z_fromutc z (dt_wall d)), dt_tzinfo = Some LocalTz,
      dt_fold = snd (z_fromutc z (dt_wall d))\<rparr>"
  by (simp add: normalize_dt_def astimezone_local_def replace_tzinfo_def timezone_utc_def
      utcoffset_def case_prod_unfold Let_def)

lemma normalize_date: "normalize_dt z (DateV n) = combine_local n"
  by (simp add: normalize_dt_def)

lemma instant_normalize:
  assumes "zone_ok z"
  shows "instant z (normalize_dt z (DateTimeV d)) = Some (dt_wall d)"
proof -
  have "(case z_fromutc z (dt_wall d) of (w, f) \<Rightarrow> w - z_utcoffset z w f) = dt_wall d"
    using assms unfolding zone_ok_def by blast
  then show ?thesis
    by (simp add: normalize_datetime instant_def utcoffset_def case_prod_unfold)
qed

lemma event_of_tuple:
  assumes "event_of z st en c = Inr (Some (t, tx))" "dtstart c = Some s"
  shows "t = tuple_of z c s"
  using assms
  by (auto simp: event_of_def py_bind_def Let_def tuple_of_def dt_sub_local
      split: if_splits sum.splits)

lemma ex_patterns_ok: "distinct (map fst ex_patterns)"
  by (simp add: ex_patterns_def)

lemma ex_contains:
  "contains ''meeting'' ''Team meeting  Room 4''" "contains ''meeting'' ''Holiday no meeting ''"
  "\<not> contains ''meeting'' ''Lunch  ''"
  "contains ''Room'' ''Team meeting  Room 4''" "\<not> contains ''Room'' ''Holiday no meeting ''"
  "\<not> contains ''Room'' ''Lunch  ''"
  by simp_all

lemma map_of_map_snd:
  "map_of (map (\<lambda>(k, v). (k, f v)) xs) k = map_option f (map_of xs k)"
  by (induction xs) auto

lemma strftime_ym_month: "strftime_ym d = (y, m) \<Longrightarrow> 1 \<le> m \<and> m \<le> 12"
proof -
  assume a: "strftime_ym d = (y, m)"
  obtain y' m' d' where o: "ord2ymd (toordinal d) = (y', m', d')" by (cases "ord2ymd (toordinal d)")
  with a have "m' = m" by (simp add: strftime_ym_def)
  with ord2ymd_month[OF o] show ?thesis by simp
qed

lemma day_stats_list:
  "day_stats_of events =
     map (\<lambda>day. (day, day_avg \<lparr>total_hours = foldl (+) 0 (map event_hours (filter (\<lambda>e. day_name e = day) events)),
                               avg_hours = 0,
                               count = int (length (filter (\<lambda>e. day_name e = day) events))\<rparr>)) days"
proof -
  have "distinct (map fst (map (\<lambda>day. (day, \<lparr>total_hours = 0, avg_hours = 0, count = 0\<rparr>)) days))"
    by (simp add: days_def)
  then show ?thesis
    unfolding day_stats_of_def by (simp add: day_loop_closed o_def case_prod_unfold)
qed

lemma map_of_graph:
  "map_of (map (\<lambda>d. (d, g d)) ds) k = (if k \<in> set ds then Some (g k) else None)"
  by (induction ds) auto

lemma hours_at_day:
  "hours_at (day_stats_of events) k =
     (if k \<in> set days then foldl (+) 0 (map event_hours (filter (\<lambda>e. day_name e = k) events)) else 0)"
  unfolding hours_at_def day_stats_list map_of_graph by (simp add: day_avg_def)

lemma count_at_day:
  "count_at (day_stats_of events) k =
     (if k \<in> set days then int (length (filter (\<lambda>e. day_name e = k) events)) else 0)"
  unfolding count_at_def day_stats_list map_of_graph by (simp add: day_avg_def)

lemma hours_at_week:
  "hours_at (weekly_stats_of events) k = foldl (+) 0 (map event_hours (filter (in_week k) events))"
  unfolding hours_at_def weekly_stats_closed by simp

lemma hours_at_month:
  "hours_at (monthly_stats_of events) k = foldl (+) 0 (map event_hours (filter (in_month k) events))"
  unfolding hours_at_def monthly_stats_closed by simp

lemma event_count_at_month:
  "event_count_at (monthly_stats_of events) k = int (length (filter (in_month k) events))"
  unfolding event_count_at_def monthly_stats_closed by simp

lemma foldl_skip_zero:
  assumes "event_hours t = 0"
  shows "foldl (+) 0 (map event_hours (filter P (xs @ t # ys))) =
         foldl (+) 0 (map event_hours (filter P (xs @ ys)))"
  using assms by simp

lemma day_name_in_days: "day_name e \<in> set days"
proof -
  have l: "length days = 7" by (simp add: days_def)
  have "nat (weekday (fst e)) < length days"
    unfolding l using weekday_range[of "fst e"] by linarith
  then show ?thesis unfolding day_name_def by (rule nth_mem)
qed













section \<open>Claims\<close>



text \<open>
  C2 as stated fails: an event that the file gives as 10:00 in a zone one hour ahead of UTC
  starts at 09:00 UTC, but the start that \<open>analyze_events\<close> records, 02:00 Pacific time,
  is the instant 10:00 UTC.
\<close>

theorem instant_not_preserved_counterexample:
  "analyze_events la_2024 [[ex_berlin]] ex_start ex_end [(''standups'', contains ''Standup'')] =
     Inr ([(''standups'', [(local_datetime 2024 1 15 2 0 0, ''Standup'', timedelta_hours 1)])], [])
   \<and> instant la_2024 (local_datetime 2024 1 15 2 0 0) = Some (wall_clock 2024 1 15 10 0 0)
   \<and> instant la_2024 (berlin_datetime 2024 1 15 10 0 0) = Some (wall_clock 2024 1 15 9 0 0)
   \<and> instant la_2024 (local_datetime 2024 1 15 2 0 0)
       \<noteq> instant la_2024 (berlin_datetime 2024 1 15 10 0 0)"
proof -
  have e: "event_of la_2024 ex_start ex_end ex_berlin =
             Inr (Some ((local_datetime 2024 1 15 2 0 0, ''Standup'', timedelta_hours 1), ''Standup  ''))"
    by (simp add: ex_defs cal_defs ev_defs Let_def)
  have a: "analyze_events la_2024 [[ex_berlin]] ex_start ex_end [(''standups'', contains ''Standup'')] =
     Inr ([(''standups'', [(local_datetime 2024 1 15 2 0 0, ''Standup'', timedelta_hours 1)])], [])"
    by (simp add: analyze_events_def e)
  have i: "instant la_2024 (local_datetime 2024 1 15 2 0 0) = Some (wall_clock 2024 1 15 10 0 0)"
    by (simp add: instant_def utcoffset_def local_datetime_def la_2024_def cal_defs)
  have j: "instant la_2024 (berlin_datetime 2024 1 15 10 0 0) = Some (wall_clock 2024 1 15 9 0 0)"
    by (simp add: instant_def utcoffset_def berlin_datetime_def cal_defs)
  have n: "wall_clock 2024 1 15 10 0 0 \<noteq> wall_clock 2024 1 15 9 0 0"
    by (simp add: cal_defs)
  show ?thesis using a i j n by simp
qed

text \<open>
  C2, as amended. The normalised start and end of a timed event are datetimes of the local
  zone that denote the instant obtained by reading the wall-clock fields of the file's value
  as UTC; whatever zone the value carried in the file is discarded. This is the instant of
  the file's value when that value's UTC offset is zero.
\<close>

theorem normalized_instant_is_wall_clock_as_utc:
  assumes "zone_ok z"
    and "event_of z start_time end_time c = Inr (Some ((event_start, summ, duration), tx))"
    and "dtstart c = Some (DateTimeV d)"
  shows "event_start = normalize_dt z (DateTimeV d)
       \<and> dt_tzinfo event_start = Some LocalTz
       \<and> instant z event_start = Some (dt_wall d)
       \<and> (\<forall>e. dtend c = Some (DateTimeV e) \<longrightarrow>
              instant z (normalize_dt z (raw_end c (DateTimeV d))) = Some (dt_wall e))
       \<and> (utcoffset z d = Some 0 \<longrightarrow> instant z event_start = instant z d)"
proof -
  have t: "(event_start, summ, duration) = tuple_of z c (DateTimeV d)"
    using event_of_tuple[OF assms(2,3)] .
  then have s: "event_start = normalize_dt z (DateTimeV d)"
    by (simp add: tuple_of_def)
  have e: "instant z (normalize_dt z (raw_end c (DateTimeV d))) = Some (dt_wall e)"
    if "dtend c = Some (DateTimeV e)" for e
    using that instant_normalize[OF assms(1)] by (simp add: raw_end_def)
  have u: "instant z event_start = instant z d" if "utcoffset z d = Some 0"
    using that unfolding s instant_normalize[OF assms(1)] by (simp add: instant_def)
  show ?thesis
    using s e u instant_normalize[OF assms(1), of d] by simp
qed

theorem normalized_instant_is_wall_clock_as_utc_witness:
  "zone_ok la_2024
   \<and> event_of la_2024 ex_start ex_end ex_meeting = Inr (Some (ex_meeting_tuple, ''Team meeting  Room 4''))
   \<and> dtstart ex_meeting = Some (DateTimeV (utc_datetime 2024 1 15 18 0 0))
   \<and> instant la_2024 (local_datetime 2024 1 15 10 0 0) = Some (wall_clock 2024 1 15 18 0 0)
   \<and> instant la_2024 (local_datetime 2024 1 15 10 0 0) = instant la_2024 (utc_datetime 2024 1 15 18 0 0)"
proof -
  have d: "dtstart ex_meeting = Some (DateTimeV (utc_datetime 2024 1 15 18 0 0))"
    by (simp add: ex_meeting_def)
  have u: "utcoffset la_2024 (utc_datetime 2024 1 15 18 0 0) = Some 0"
    by (simp add: utcoffset_def utc_datetime_def timezone_utc_def)
  have w: "dt_wall (utc_datetime 2024 1 15 18 0 0) = wall_clock 2024 1 15 18 0 0"
    by (simp add: utc_datetime_def)
  have "instant la_2024 (local_datetime 2024 1 15 10 0 0) = Some (wall_clock 2024 1 15 18 0 0)
      \<and> instant la_2024 (local_datetime 2024 1 15 10 0 0) = instant la_2024 (utc_datetime 2024 1 15 18 0 0)"
    using normalized_instant_is_wall_clock_as_utc[OF la_2024_ok
        ev_meeting[unfolded ex_meeting_tuple_def] d] u
    unfolding w by blast
  then show ?thesis
    using d la_2024_ok ev_meeting by blast
qed

text \<open>
  C3 as stated fails in its last clause: the lunch of 2024-06-11 is a VEVENT with a DTSTART
  inside the window, so it is not skipped, but no pattern matches its text; it is in the
  list of no pattern, only among the unmatched events that are printed, and no statistic
  (here the time spent) takes its hour.
\<close>

theorem window_event_without_match_counterexample:
  "comp_name ex_lunch = ''VEVENT''
   \<and> dtstart ex_lunch = Some (DateTimeV (utc_datetime 2024 6 11 16 0 0))
   \<and> recorded la_2024 ex_start ex_end ex_lunch = Some ex_lunch_tuple
   \<and> analyze_events la_2024 ex_calendars ex_start ex_end ex_patterns =
       Inr ([(''meetings'', [ex_meeting_tuple, ex_holiday_tuple]), (''rooms'', [ex_meeting_tuple])],
            [ex_lunch_tuple])
   \<and> ex_lunch_tuple \<notin> set [ex_meeting_tuple, ex_holiday_tuple]
   \<and> ex_lunch_tuple \<notin> set [ex_meeting_tuple]
   \<and> get_time_spent [(''meetings'', [ex_meeting_tuple, ex_holiday_tuple]), (''rooms'', [ex_meeting_tuple])] =
       [(''meetings'', 5400 * us_per_second), (''rooms'', 5400 * us_per_second)]"
proof -
  have 1: "comp_name ex_lunch = ''VEVENT''"
    "dtstart ex_lunch = Some (DateTimeV (utc_datetime 2024 6 11 16 0 0))"
    by (simp_all add: ex_lunch_def)
  have 2: "analyze_events la_2024 ex_calendars ex_start ex_end ex_patterns =
       Inr ([(''meetings'', [ex_meeting_tuple, ex_holiday_tuple]), (''rooms'', [ex_meeting_tuple])],
            [ex_lunch_tuple])"
    by (simp add: analyze_events_def ex_calendars_def ex_patterns_def
        ev_meeting ev_holiday ev_lunch ev_old ev_alarm ev_nostart)
  have 3: "ex_lunch_tuple \<notin> set [ex_meeting_tuple, ex_holiday_tuple]"
    "ex_lunch_tuple \<notin> set [ex_meeting_tuple]"
    by (simp_all add: ex_lunch_tuple_def ex_meeting_tuple_def ex_holiday_tuple_def)
  have 4: "get_time_spent [(''meetings'', [ex_meeting_tuple, ex_holiday_tuple]), (''rooms'', [ex_meeting_tuple])] =
       [(''meetings'', 5400 * us_per_second), (''rooms'', 5400 * us_per_second)]"
    by (simp add: get_time_spent_def time_spent_of_def ex_meeting_tuple_def ex_holiday_tuple_def)
  show ?thesis using 1 2 3 4 ex_recorded(3) by blast
qed

text \<open>
  C3, as amended. Window filtering: a VEVENT with a DTSTART is skipped exactly when its
  normalised end is strictly before \<open>start_time\<close> or its normalised start is strictly
  after \<open>end_time\<close> (the comparisons being those of the datetime library); every other
  such event is tried against every pattern. It is appended to the list of each pattern
  whose regex matches its text, and the day, week, month and time-spent statistics of a
  pattern are computed from exactly that list; an event that no pattern matches is only
  reported as unmatched and contributes to no statistics.
\<close>

theorem window_filter:
  assumes "aware start_time" "aware end_time" "distinct (map fst patterns)"
  shows "recorded z start_time end_time c =
           (if comp_name c = ''VEVENT''
            then case dtstart c of
                   None \<Rightarrow> None
                 | Some s \<Rightarrow>
                     if dt_lt z (normalize_dt z (raw_end c s)) start_time = Inr True
                        \<or> dt_gt z (normalize_dt z s) end_time = Inr True
                     then None else Some (tuple_of z c s)
            else None)
       \<and> (\<exists>events_data unmatched.
             analyze_events z calendars start_time end_time patterns = Inr (events_data, unmatched)
           \<and> set unmatched \<union> (\<Union>l \<in> snd ` set events_data. set l) =
               {t. \<exists>c \<in> set (concat calendars). recorded z start_time end_time c = Some t}
           \<and> (\<forall>(pattern_name, regex) \<in> set patterns.
                 map_of events_data pattern_name =
                   Some (List.map_filter
                           (\<lambda>c. if regex (searchable_text c)
                                then recorded z start_time end_time c else None)
                           (concat calendars))
               \<and> map_of (get_day_stats events_data) pattern_name =
                   map_option day_stats_of (map_of events_data pattern_name)
               \<and> map_of (get_time_spent events_data) pattern_name =
                   map_option time_spent_of (map_of events_data pattern_name)
               \<and> map_of (get_weekly_stats events_data) pattern_name =
                   map_option weekly_stats_of (map_of events_data pattern_name)
               \<and> map_of (get_monthly_stats events_data) pattern_name =
                   map_option monthly_stats_of (map_of events_data pattern_name))
           \<and> unmatched =
               List.map_filter
                 (\<lambda>c. if list_ex (\<lambda>(pattern_name, regex). regex (searchable_text c)) patterns
                      then None else recorded z start_time end_time c)
                 (concat calendars))"
proof -
  let ?evs = "events_in z start_time end_time (concat calendars)"
  let ?data = "map (\<lambda>(n, regex). (n, map fst (filter (\<lambda>(t, txt). regex txt) ?evs))) patterns"
  let ?un = "map fst (filter (\<lambda>(t, tx). \<not> list_ex (\<lambda>(n, regex). regex tx) patterns) ?evs)"
  have d: "distinct (map fst ?data)"
    using assms(3) by (simp add: o_def case_prod_unfold)
  have a: "analyze_events z calendars start_time end_time patterns = Inr (?data, ?un)"
    by (rule analyze_events_closed[OF assms])
  have s: "set ?un \<union> (\<Union>l \<in> snd ` set ?data. set l) =
             {t. \<exists>c \<in> set (concat calendars). recorded z start_time end_time c = Some t}"
  proof -
    have "set ?un \<union> (\<Union>l \<in> snd ` set ?data. set l) = fst ` set ?evs"
      by (force simp: list_ex_iff)
    then show ?thesis unfolding set_events_in .
  qed
  have l: "map_of ?data n =
             Some (List.map_filter
                     (\<lambda>c. if regex (searchable_text c)
                          then recorded z start_time end_time c else None)
                     (concat calendars))"
    if "(n, regex) \<in> set patterns" for n regex
  proof -
    have "(n, map fst (filter (\<lambda>(t, txt). regex txt) ?evs)) \<in> set ?data"
      using that by force
    then have "map_of ?data n = Some (map fst (filter (\<lambda>(t, txt). regex txt) ?evs))"
      by (rule map_of_is_SomeI[OF d])
    then show ?thesis unfolding filter_events_in .
  qed
  have g: "map_of (get_day_stats ?data) n = map_option day_stats_of (map_of ?data n)"
    "map_of (get_time_spent ?data) n = map_option time_spent_of (map_of ?data n)"
    "map_of (get_weekly_stats ?data) n = map_option weekly_stats_of (map_of ?data n)"
    "map_of (get_monthly_stats ?data) n = map_option monthly_stats_of (map_of ?data n)" for n
    unfolding get_day_stats_def get_time_spent_def get_weekly_stats_def get_monthly_stats_def
    by (rule map_of_map_snd)+
  have p: "\<forall>(pattern_name, regex) \<in> set patterns.
                 map_of ?data pattern_name =
                   Some (List.map_filter
                           (\<lambda>c. if regex (searchable_text c)
                                then recorded z start_time end_time c else None)
                           (concat calendars))
               \<and> map_of (get_day_stats ?data) pattern_name =
                   map_option day_stats_of (map_of ?data pattern_name)
               \<and> map_of (get_time_spent ?data) pattern_name =
                   map_option time_spent_of (map_of ?data pattern_name)
               \<and> map_of (get_weekly_stats ?data) pattern_name =
                   map_option weekly_stats_of (map_of ?data pattern_name)
               \<and> map_of (get_monthly_stats ?data) pattern_name =
                   map_option monthly_stats_of (map_of ?data pattern_name)"
    using l g by blast
  have u: "?un = List.map_filter
                 (\<lambda>c. if list_ex (\<lambda>(pattern_name, regex). regex (searchable_text c)) patterns
                      then None else recorded z start_time end_time c)
                 (concat calendars)"
    by (rule unmatched_events_in)
  have e: "\<exists>events_data unmatched.
             analyze_events z calendars start_time end_time patterns = Inr (events_data, unmatched)
           \<and> set unmatched \<union> (\<Union>l \<in> snd ` set events_data. set l) =
               {t. \<exists>c \<in> set (concat calendars). recorded z start_time end_time c = Some t}
           \<and> (\<forall>(pattern_name, regex) \<in> set patterns.
                 map_of events_data pattern_name =
                   Some (List.map_filter
                           (\<lambda>c. if regex (searchable_text c)
                                then recorded z start_time end_time c else None)
                           (concat calendars))
               \<and> map_of (get_day_stats events_data) pattern_name =
                   map_option day_stats_of (map_of events_data pattern_name)
               \<and> map_of (get_time_spent events_data) pattern_name =
                   map_option time_spent_of (map_of events_data pattern_name)
               \<and> map_of (get_weekly_stats events_data) pattern_name =
                   map_option weekly_stats_of (map_of events_data pattern_name)
               \<and> map_of (get_monthly_stats events_data) pattern_name =
                   map_option monthly_stats_of (map_of events_data pattern_name))
           \<and> unmatched =
               List.map_filter
                 (\<lambda>c. if list_ex (\<lambda>(pattern_name, regex). regex (searchable_text c)) patterns
                      then None else recorded z start_time end_time c)
                 (concat calendars)"
    using a s p u by (intro exI[of _ ?data] exI[of _ ?un] conjI)
  show ?thesis
    using e recorded_explicit[OF assms(1,2), of z c, unfolded skipped_def] by (rule conjI[rotated])
qed

theorem window_filter_witness:
  "aware ex_start \<and> aware ex_end \<and> distinct (map fst ex_patterns)
   \<and> recorded la_2024 ex_start ex_end ex_old = None
   \<and> dt_lt la_2024 (normalize_dt la_2024 (raw_end ex_old (DateTimeV (utc_datetime 2023 6 1 12 0 0))))
        ex_start = Inr True
   \<and> (\<exists>events_data unmatched.
         analyze_events la_2024 ex_calendars ex_start ex_end ex_patterns = Inr (events_data, unmatched)
       \<and> set unmatched \<union> (\<Union>l \<in> snd ` set events_data. set l) =
           {ex_meeting_tuple, ex_holiday_tuple, ex_lunch_tuple}
       \<and> map_of events_data ''meetings'' = Some [ex_meeting_tuple, ex_holiday_tuple]
       \<and> map_of events_data ''rooms'' = Some [ex_meeting_tuple]
       \<and> map_of (get_time_spent events_data) ''meetings'' = Some (5400 * us_per_second)
       \<and> map_of (get_time_spent events_data) ''rooms'' = Some (5400 * us_per_second)
       \<and> unmatched = [ex_lunch_tuple])"
proof -
  have s: "{t. \<exists>c \<in> set (concat ex_calendars). recorded la_2024 ex_start ex_end c = Some t} =
           {ex_meeting_tuple, ex_holiday_tuple, ex_lunch_tuple}"
    by (auto simp: ex_calendars_def ex_recorded)
  have l: "dt_lt la_2024 (normalize_dt la_2024 (raw_end ex_old (DateTimeV (utc_datetime 2023 6 1 12 0 0))))
        ex_start = Inr True"
    by (simp add: ex_defs cal_defs ev_defs Let_def)
  have t: "time_spent_of [ex_meeting_tuple, ex_holiday_tuple] = 5400 * us_per_second"
    "time_spent_of [ex_meeting_tuple] = 5400 * us_per_second"
    by (simp_all add: time_spent_of_def ex_meeting_tuple_def ex_holiday_tuple_def)
  have m: "List.map_filter (\<lambda>c. if contains ''meeting'' (searchable_text c)
               then recorded la_2024 ex_start ex_end c else None) (concat ex_calendars)
             = [ex_meeting_tuple, ex_holiday_tuple]"
    "List.map_filter (\<lambda>c. if contains ''Room'' (searchable_text c)
               then recorded la_2024 ex_start ex_end c else None) (concat ex_calendars)
             = [ex_meeting_tuple]"
    "List.map_filter (\<lambda>c. if list_ex (\<lambda>(pattern_name, regex). regex (searchable_text c)) ex_patterns
               then None else recorded la_2024 ex_start ex_end c) (concat ex_calendars)
             = [ex_lunch_tuple]"
    by (simp_all add: ex_calendars_def ex_patterns_def List.map_filter_simps ex_recorded ex_texts)
  have "\<exists>events_data unmatched.
         analyze_events la_2024 ex_calendars ex_start ex_end ex_patterns = Inr (events_data, unmatched)
       \<and> set unmatched \<union> (\<Union>l \<in> snd ` set events_data. set l) =
           {ex_meeting_tuple, ex_holiday_tuple, ex_lunch_tuple}
       \<and> map_of events_data ''meetings'' = Some [ex_meeting_tuple, ex_holiday_tuple]
       \<and> map_of events_data ''rooms'' = Some [ex_meeting_tuple]
       \<and> map_of (get_time_spent events_data) ''meetings'' = Some (5400 * us_per_second)
       \<and> map_of (get_time_spent events_data) ''rooms'' = Some (5400 * us_per_second)
       \<and> unmatched = [ex_lunch_tuple]"
    using window_filter[OF ex_aware ex_patterns_ok, of la_2024 ex_old ex_calendars]
    unfolding s m by (auto simp: ex_patterns_def m t)
  then show ?thesis
    using ex_aware ex_patterns_ok l ex_recorded(4) by blast
qed

text \<open>
  C4. All-day events: an event whose DTSTART is a date records as its start the midnight of
  that date as a local wall time, and the zero duration. Wherever its tuple stands in the
  list of a pattern, it leaves the total hours of every weekday, week and month and the
  total time spent as they are without it, and it raises the count of its weekday and the
  event count of its month by one.
\<close>

theorem all_day_event_counts_but_adds_no_time:
  assumes "event_of z start_time end_time c = Inr (Some (t, tx))"
    and "dtstart c = Some (DateV d)"
  shows "t = (combine_local d, get_str (summary c), 0)
       \<and> toordinal (fst t) = d \<and> dt_wall (fst t) mod us_per_day = 0
       \<and> dt_tzinfo (fst t) = Some LocalTz
       \<and> event_hours t = 0
       \<and> hours_at (day_stats_of (xs @ t # ys)) day = hours_at (day_stats_of (xs @ ys)) day
       \<and> hours_at (weekly_stats_of (xs @ t # ys)) week = hours_at (weekly_stats_of (xs @ ys)) week
       \<and> hours_at (monthly_stats_of (xs @ t # ys)) month = hours_at (monthly_stats_of (xs @ ys)) month
       \<and> time_spent_of (xs @ t # ys) = time_spent_of (xs @ ys)
       \<and> count_at (day_stats_of (xs @ t # ys)) (days ! nat (weekday (fst t))) =
           count_at (day_stats_of (xs @ ys)) (days ! nat (weekday (fst t))) + 1
       \<and> event_count_at (monthly_stats_of (xs @ t # ys)) (strftime_ym (fst t)) =
           event_count_at (monthly_stats_of (xs @ ys)) (strftime_ym (fst t)) + 1"
proof -
  have t: "t = (combine_local d, get_str (summary c), 0)"
    using event_of_tuple[OF assms] by (simp add: tuple_of_def is_datetime_def normalize_dt_def)
  have o: "toordinal (fst t) = d" "dt_wall (fst t) mod us_per_day = 0"
    "dt_tzinfo (fst t) = Some LocalTz"
    unfolding t by (simp_all add: toordinal_def combine_local_def us_per_day_def us_per_second_def)
  have h: "event_hours t = 0"
    unfolding t by (simp add: event_hours_def hours_of_def total_seconds_def)
  have s: "time_spent_of (xs @ t # ys) = time_spent_of (xs @ ys)"
    unfolding t by (simp add: time_spent_of_def)
  have dn: "days ! nat (weekday (fst t)) = day_name t" by (simp add: day_name_def)
  have c1: "count_at (day_stats_of (xs @ t # ys)) (days ! nat (weekday (fst t))) =
           count_at (day_stats_of (xs @ ys)) (days ! nat (weekday (fst t))) + 1"
    unfolding dn count_at_day using day_name_in_days[of t] by simp
  have c2: "event_count_at (monthly_stats_of (xs @ t # ys)) (strftime_ym (fst t)) =
           event_count_at (monthly_stats_of (xs @ ys)) (strftime_ym (fst t)) + 1"
    unfolding event_count_at_month by (simp add: in_month_def)
  have h1: "hours_at (day_stats_of (xs @ t # ys)) day = hours_at (day_stats_of (xs @ ys)) day"
    unfolding hours_at_day foldl_skip_zero[OF h] ..
  have h2: "hours_at (weekly_stats_of (xs @ t # ys)) week = hours_at (weekly_stats_of (xs @ ys)) week"
    unfolding hours_at_week foldl_skip_zero[OF h] ..
  have h3: "hours_at (monthly_stats_of (xs @ t # ys)) month = hours_at (monthly_stats_of (xs @ ys)) month"
    unfolding hours_at_month foldl_skip_zero[OF h] ..
  show ?thesis using t o h s c1 c2 h1 h2 h3 by blast
qed

theorem all_day_event_counts_but_adds_no_time_witness:
  "event_of la_2024 ex_start ex_end ex_holiday = Inr (Some (ex_holiday_tuple, ''Holiday no meeting ''))
   \<and> dtstart ex_holiday = Some (DateV (ymd2ord 2024 2 29))
   \<and> ex_holiday_tuple = (combine_local (ymd2ord 2024 2 29), ''Holiday'', 0)
   \<and> hours_at (day_stats_of [ex_meeting_tuple, ex_holiday_tuple]) ''Thursday'' =
       hours_at (day_stats_of [ex_meeting_tuple]) ''Thursday''
   \<and> time_spent_of [ex_meeting_tuple, ex_holiday_tuple] = time_spent_of [ex_meeting_tuple]
   \<and> count_at (day_stats_of [ex_meeting_tuple, ex_holiday_tuple]) ''Thursday'' =
       count_at (day_stats_of [ex_meeting_tuple]) ''Thursday'' + 1
   \<and> event_count_at (monthly_stats_of [ex_meeting_tuple, ex_holiday_tuple]) (2024, 2) =
       event_count_at (monthly_stats_of [ex_meeting_tuple]) (2024, 2) + 1"
proof -
  have d: "dtstart ex_holiday = Some (DateV (ymd2ord 2024 2 29))"
    by (simp add: ex_holiday_def)
  have w: "days ! nat (weekday (fst ex_holiday_tuple)) = ''Thursday''"
    by (simp add: weekday_def toordinal_def days_def ex_defs cal_defs)
  have k: "strftime_ym (fst ex_holiday_tuple) = (2024, 2)"
    by (simp add: strftime_ym_def toordinal_def ord2ymd_def month_of_yday_def Let_def
        DI400Y_def DI100Y_def DI4Y_def DAYS_IN_MONTH_def ex_defs cal_defs)
  have g: "get_str (summary ex_holiday) = ''Holiday''"
    by (simp add: get_str_def ex_holiday_def)
  show ?thesis
    using all_day_event_counts_but_adds_no_time[OF ev_holiday d,
        of "[ex_meeting_tuple]" "[]" "''Thursday''"] ev_holiday d
    unfolding w k g by simp
qed

text \<open>
  C5. Weekly bucketing: the week key of an event is the date of the Monday on or before its
  start date (the key is a Monday, not after the start date and less than seven days before
  it); the entry of a week exists when some event of the pattern has that key, its
  total\_hours is the sum of the durations in hours of the events with that key, and its
  avg\_hours is that total divided by 7, whatever the analysis window.
\<close>

theorem weekly_buckets:
  "week_key event_start = toordinal event_start - weekday event_start
   \<and> weekday (combine_local (week_key event_start)) = 0
   \<and> week_key event_start \<le> toordinal event_start
   \<and> toordinal event_start < week_key event_start + 7
   \<and> map_of (weekly_stats_of events) k =
       (if filter (in_week k) events = [] then None
        else Some \<lparr>total_hours = foldl (+) 0 (map event_hours (filter (in_week k) events)),
                   avg_hours = foldl (+) 0 (map event_hours (filter (in_week k) events)) / 7\<rparr>)
   \<and> distinct (map fst (weekly_stats_of events))
   \<and> map_of (get_weekly_stats events_data) pattern =
       map_option weekly_stats_of (map_of events_data pattern)"
proof -
  have g: "map_of (get_weekly_stats events_data) pattern =
           map_option weekly_stats_of (map_of events_data pattern)"
    unfolding get_weekly_stats_def by (rule map_of_map_snd)
  have m: "weekday (combine_local (week_key event_start)) = 0"
    using week_key_monday[of event_start] by (simp add: weekday_def toordinal_combine)
  show ?thesis
    using week_key_monday[of event_start] week_key_eq[of event_start] g m
      weekly_stats_closed[of events k] weekly_stats_distinct[of events]
    by simp
qed

theorem weekly_buckets_witness:
  "week_key (local_datetime 2024 2 29 0 0 0) = ymd2ord 2024 2 26
   \<and> map_of (weekly_stats_of [ex_meeting_tuple, ex_holiday_tuple, ex_lunch_tuple]) (ymd2ord 2024 1 15) =
       Some \<lparr>total_hours = 3 / 2, avg_hours = 3 / 14\<rparr>
   \<and> map_of (weekly_stats_of [ex_meeting_tuple, ex_holiday_tuple, ex_lunch_tuple]) (ymd2ord 2024 1 22) = None"
proof -
  have w: "weekday (fst ex_meeting_tuple) = 0" "weekday (fst ex_holiday_tuple) = 3"
    "weekday (fst ex_lunch_tuple) = 1" "weekday (local_datetime 2024 2 29 0 0 0) = 3"
    by (simp_all add: weekday_def toordinal_def ex_defs cal_defs)
  have t: "toordinal (fst ex_meeting_tuple) = ymd2ord 2024 1 15"
    "toordinal (fst ex_holiday_tuple) = ymd2ord 2024 2 29"
    "toordinal (fst ex_lunch_tuple) = ymd2ord 2024 6 11"
    "toordinal (local_datetime 2024 2 29 0 0 0) = ymd2ord 2024 2 29"
    by (simp_all add: toordinal_def ex_defs cal_defs)
  have h: "event_hours ex_meeting_tuple = 3 / 2" "event_hours ex_holiday_tuple = 0"
    "event_hours ex_lunch_tuple = 1"
    by (simp_all add: event_hours_def hours_of_def total_seconds_def ex_defs cal_defs)
  have k: "week_key (fst ex_meeting_tuple) = ymd2ord 2024 1 15"
    "week_key (fst ex_holiday_tuple) = ymd2ord 2024 2 26"
    "week_key (fst ex_lunch_tuple) = ymd2ord 2024 6 10"
    "week_key (local_datetime 2024 2 29 0 0 0) = ymd2ord 2024 2 26"
    unfolding week_key_eq w t by (simp_all add: cal_defs)
  have n: "ymd2ord 2024 2 26 \<noteq> ymd2ord 2024 1 15" "ymd2ord 2024 6 10 \<noteq> ymd2ord 2024 1 15"
    "ymd2ord 2024 1 15 \<noteq> ymd2ord 2024 1 22" "ymd2ord 2024 2 26 \<noteq> ymd2ord 2024 1 22" "ymd2ord 2024 6 10 \<noteq> ymd2ord 2024 1 22"
    by (simp_all add: cal_defs)
  let ?evs = "[ex_meeting_tuple, ex_holiday_tuple, ex_lunch_tuple]"
  have a: "map_of (weekly_stats_of ?evs) (ymd2ord 2024 1 15) =
       (if filter (in_week (ymd2ord 2024 1 15)) ?evs = [] then None
        else Some \<lparr>total_hours = foldl (+) 0 (map event_hours (filter (in_week (ymd2ord 2024 1 15)) ?evs)),
                   avg_hours = foldl (+) 0 (map event_hours (filter (in_week (ymd2ord 2024 1 15)) ?evs)) / 7\<rparr>)"
    using weekly_buckets[of "local_datetime 2024 2 29 0 0 0" ?evs "ymd2ord 2024 1 15"] by blast
  have b: "map_of (weekly_stats_of ?evs) (ymd2ord 2024 1 22) =
       (if filter (in_week (ymd2ord 2024 1 22)) ?evs = [] then None
        else Some \<lparr>total_hours = foldl (+) 0 (map event_hours (filter (in_week (ymd2ord 2024 1 22)) ?evs)),
                   avg_hours = foldl (+) 0 (map event_hours (filter (in_week (ymd2ord 2024 1 22)) ?evs)) / 7\<rparr>)"
    using weekly_buckets[of "local_datetime 2024 2 29 0 0 0" ?evs "ymd2ord 2024 1 22"] by blast
  have f1: "filter (in_week (ymd2ord 2024 1 15)) ?evs = [ex_meeting_tuple]"
    by (simp add: in_week_def k n)
  have f2: "filter (in_week (ymd2ord 2024 1 22)) ?evs = []"
    by (simp add: in_week_def k n)
  show ?thesis
    unfolding a b f1 f2 using k(4) by (simp add: h)
qed

text \<open>
  C6. Monthly boundary math: the events of a pattern are grouped by the year and month of
  their start; the entry of a month has the sum of the durations in hours as total\_hours,
  the number of events as event\_count, and as avg\_hours the total divided by
  days\_in\_month / 7, where days\_in\_month is the number of days from the first of the month
  to the first of the next month (January of the next year after December). That number is
  31, 30, or 28 and in leap years 29 for February, for each of the twelve months, and the
  month of a key is always one of the twelve.
\<close>

theorem monthly_buckets:
  "map_of (monthly_stats_of events) (year, month) =
     (if filter (in_month (year, month)) events = [] then None
      else Some \<lparr>total_hours = foldl (+) 0 (map event_hours (filter (in_month (year, month)) events)),
                 avg_hours = foldl (+) 0 (map event_hours (filter (in_month (year, month)) events))
                               / (real_of_int (days_in_month_of (year, month)) / 7),
                 event_count = int (length (filter (in_month (year, month)) events))\<rparr>)
   \<and> (1 \<le> month \<and> month \<le> 12 \<longrightarrow>
        days_in_month_of (year, month) =
          (if month = 2 then (if is_leap year then 29 else 28)
           else if month = 4 \<or> month = 6 \<or> month = 9 \<or> month = 11 then 30 else 31))
   \<and> (strftime_ym event_start = (year, month) \<longrightarrow> 1 \<le> month \<and> month \<le> 12)
   \<and> distinct (map fst (monthly_stats_of events))
   \<and> map_of (get_monthly_stats events_data) pattern =
       map_option monthly_stats_of (map_of events_data pattern)"
proof -
  have g: "map_of (get_monthly_stats events_data) pattern =
           map_option monthly_stats_of (map_of events_data pattern)"
    unfolding get_monthly_stats_def by (rule map_of_map_snd)
  have d: "days_in_month_of (year, month) =
          (if month = 2 then (if is_leap year then 29 else 28)
           else if month = 4 \<or> month = 6 \<or> month = 9 \<or> month = 11 then 30 else 31)"
    if "1 \<le> month \<and> month \<le> 12"
    using that days_in_month_of_eq[of month year] days_in_month_values[of month year] by simp
  have s: "1 \<le> month \<and> month \<le> 12" if "strftime_ym event_start = (year, month)"
    using that by (rule strftime_ym_month)
  show ?thesis
    using g d s monthly_stats_closed[of events "(year, month)"] monthly_stats_distinct[of events]
    by blast
qed

theorem monthly_buckets_witness:
  "strftime_ym (fst ex_holiday_tuple) = (2024, 2)
   \<and> days_in_month_of (2024, 2) = 29
   \<and> days_in_month_of (2023, 2) = 28
   \<and> days_in_month_of (2024, 12) = 31
   \<and> map_of (monthly_stats_of [ex_meeting_tuple, ex_holiday_tuple, ex_lunch_tuple]) (2024, 1) =
       Some \<lparr>total_hours = 3 / 2, avg_hours = (3 / 2) / (31 / 7), event_count = 1\<rparr>
   \<and> map_of (monthly_stats_of [ex_meeting_tuple, ex_holiday_tuple, ex_lunch_tuple]) (2024, 2) =
       Some \<lparr>total_hours = 0, avg_hours = 0, event_count = 1\<rparr>
   \<and> map_of (monthly_stats_of [ex_meeting_tuple, ex_holiday_tuple, ex_lunch_tuple]) (2024, 3) = None"
proof -
  let ?evs = "[ex_meeting_tuple, ex_holiday_tuple, ex_lunch_tuple]"
  have k: "strftime_ym (fst ex_meeting_tuple) = (2024, 1)"
    "strftime_ym (fst ex_holiday_tuple) = (2024, 2)"
    "strftime_ym (fst ex_lunch_tuple) = (2024, 6)"
    by (simp_all add: strftime_ym_def toordinal_def ord2ymd_def month_of_yday_def Let_def
        DI400Y_def DI100Y_def DI4Y_def DAYS_IN_MONTH_def ex_defs cal_defs)
  have h: "event_hours ex_meeting_tuple = 3 / 2" "event_hours ex_holiday_tuple = 0"
    "event_hours ex_lunch_tuple = 1"
    by (simp_all add: event_hours_def hours_of_def total_seconds_def ex_defs cal_defs)
  have l: "is_leap 2024" "\<not> is_leap 2023" by (simp_all add: is_leap_def)
  have f: "filter (in_month (2024, 1)) ?evs = [ex_meeting_tuple]"
    "filter (in_month (2024, 2)) ?evs = [ex_holiday_tuple]"
    "filter (in_month (2024, 3)) ?evs = []"
    by (simp_all add: in_month_def k)
  have d: "days_in_month_of (2024, 2) = 29" "days_in_month_of (2023, 2) = 28"
    "days_in_month_of (2024, 12) = 31" "days_in_month_of (2024, 1) = 31"
    using monthly_buckets[of "[]" 2024 2] monthly_buckets[of "[]" 2023 2]
      monthly_buckets[of "[]" 2024 12] monthly_buckets[of "[]" 2024 1] l
    by simp_all
  have a: "map_of (monthly_stats_of ?evs) (2024, 1) =
       Some \<lparr>total_hours = 3 / 2, avg_hours = (3 / 2) / (31 / 7), event_count = 1\<rparr>"
    using monthly_buckets[of ?evs 2024 1] unfolding f d by (simp add: h)
  have b: "map_of (monthly_stats_of ?evs) (2024, 2) =
       Some \<lparr>total_hours = 0, avg_hours = 0, event_count = 1\<rparr>"
    using monthly_buckets[of ?evs 2024 2] unfolding f d by (simp add: h)
  have c: "map_of (monthly_stats_of ?evs) (2024, 3) = None"
    using monthly_buckets[of ?evs 2024 3] unfolding f by simp
  show ?thesis using k(2) d(1-3) a b c by blast
qed



text \<open>
  C8. Classification is non-exclusive and exhaustive over the given patterns: the dict that
  \<open>analyze_events\<close> returns has exactly the supplied pattern names as keys, in their order;
  under every pattern name stands the list of the tuples of all considered events whose
  text that pattern's regex matches, so an event matching several patterns is in the list
  of each of them; and an event is in the list of unmatched events if and only if no
  pattern matches its text.
\<close>

theorem keys_multimatch_unmatched:
  assumes "aware start_time" "aware end_time" "distinct (map fst patterns)"
  shows "\<exists>events_data unmatched.
           analyze_events z calendars start_time end_time patterns = Inr (events_data, unmatched)
         \<and> map fst events_data = map fst patterns
         \<and> (\<forall>(pattern_name, regex) \<in> set patterns.
               map_of events_data pattern_name =
                 Some (List.map_filter
                         (\<lambda>c. if regex (searchable_text c)
                              then recorded z start_time end_time c else None)
                         (concat calendars)))
         \<and> unmatched =
             List.map_filter
               (\<lambda>c. if list_ex (\<lambda>(pattern_name, regex). regex (searchable_text c)) patterns
                    then None else recorded z start_time end_time c)
               (concat calendars)"
proof -
  let ?evs = "events_in z start_time end_time (concat calendars)"
  let ?data = "map (\<lambda>(n, regex). (n, map fst (filter (\<lambda>(t, txt). regex txt) ?evs))) patterns"
  have d: "distinct (map fst ?data)"
    using assms(3) by (simp add: o_def case_prod_unfold)
  have k: "map fst ?data = map fst patterns"
    by (simp add: o_def case_prod_unfold)
  have l: "map_of ?data n = Some (map fst (filter (\<lambda>(t, txt). regex txt) ?evs))"
    if "(n, regex) \<in> set patterns" for n regex
  proof -
    have "(n, map fst (filter (\<lambda>(t, txt). regex txt) ?evs)) \<in> set ?data"
      using that by force
    then show ?thesis by (rule map_of_is_SomeI[OF d])
  qed
  have l': "\<forall>(n, regex) \<in> set patterns.
              map_of ?data n =
                Some (List.map_filter
                        (\<lambda>c. if regex (searchable_text c)
                             then recorded z start_time end_time c else None)
                        (concat calendars))"
    using l by (auto simp only: filter_events_in)
  show ?thesis
    unfolding analyze_events_closed[OF assms] unmatched_events_in
    using k l' by blast
qed

theorem keys_multimatch_unmatched_witness:
  "aware ex_start \<and> aware ex_end \<and> distinct (map fst ex_patterns)
   \<and> (\<exists>events_data unmatched.
         analyze_events la_2024 ex_calendars ex_start ex_end ex_patterns = Inr (events_data, unmatched)
       \<and> map fst events_data = [''meetings'', ''rooms'']
       \<and> map_of events_data ''meetings'' = Some [ex_meeting_tuple, ex_holiday_tuple]
       \<and> map_of events_data ''rooms'' = Some [ex_meeting_tuple]
       \<and> unmatched = [ex_lunch_tuple])"
  using keys_multimatch_unmatched[OF ex_aware ex_patterns_ok, of la_2024 ex_calendars]
    ex_aware ex_patterns_ok
  by (simp add: ex_patterns_def ex_calendars_def List.map_filter_simps ex_recorded ex_texts)

text \<open>
  C9 as stated fails: an event at 09:30 UTC on 2024-03-10 with no DTEND starts at 01:30
  Pacific Standard Time and ends, one hour later, at 03:30 Pacific Daylight Time; the
  duration recorded, and summed by \<open>get_time_spent\<close>, is two hours.
\<close>

theorem default_hour_counterexample:
  "dtend ex_call = None
   \<and> analyze_events la_2024 [[ex_call]] ex_start ex_end [(''calls'', contains ''Call'')] =
       Inr ([(''calls'', [(local_datetime 2024 3 10 1 30 0, ''Call'', timedelta_hours 2)])], [])
   \<and> get_time_spent [(''calls'', [(local_datetime 2024 3 10 1 30 0, ''Call'', timedelta_hours 2)])] =
       [(''calls'', timedelta_hours 2)]
   \<and> timedelta_hours 2 \<noteq> timedelta_hours 1"
proof -
  have e: "event_of la_2024 ex_start ex_end ex_call =
             Inr (Some ((local_datetime 2024 3 10 1 30 0, ''Call'', timedelta_hours 2), ''Call  ''))"
    by (simp add: ex_defs cal_defs ev_defs Let_def)
  have a: "analyze_events la_2024 [[ex_call]] ex_start ex_end [(''calls'', contains ''Call'')] =
       Inr ([(''calls'', [(local_datetime 2024 3 10 1 30 0, ''Call'', timedelta_hours 2)])], [])"
    by (simp add: analyze_events_def e)
  have g: "get_time_spent [(''calls'', [(local_datetime 2024 3 10 1 30 0, ''Call'', timedelta_hours 2)])] =
       [(''calls'', timedelta_hours 2)]"
    by (simp add: get_time_spent_def time_spent_of_def)
  have n: "timedelta_hours 2 \<noteq> timedelta_hours 1"
    by (simp add: timedelta_hours_def us_per_second_def)
  have d: "dtend ex_call = None" by (simp add: ex_call_def)
  show ?thesis using d a g n by blast
qed

text \<open>
  C9, as amended. For an event with a DTSTART and no DTEND the end is the start plus
  \<^verbatim>\<open>timedelta(hours=1)\<close>, taken before normalisation. An all-day event keeps its date and
  records the zero duration. A timed event records the difference of the local wall-clock
  times of the two normalised ends; this is exactly one hour whenever the local zone has the
  same UTC offset at the start and one hour later.
\<close>

theorem default_end_one_hour_later:
  assumes "event_of z start_time end_time c = Inr (Some ((event_start, summ, duration), tx))"
    and "dtstart c = Some s" and "dtend c = None"
  shows "raw_end c s = plus_timedelta s (timedelta_hours 1)
       \<and> (case s of
             DateV n \<Rightarrow> duration = 0 \<and> raw_end c s = DateV n
           | DateTimeV d \<Rightarrow>
               duration = fst (z_fromutc z (dt_wall d + timedelta_hours 1)) - fst (z_fromutc z (dt_wall d))
               \<and> (fst (z_fromutc z (dt_wall d + timedelta_hours 1)) - (dt_wall d + timedelta_hours 1)
                    = fst (z_fromutc z (dt_wall d)) - dt_wall d
                  \<longrightarrow> duration = timedelta_hours 1 \<and> hours_of duration = 1))"
proof -
  have r: "raw_end c s = plus_timedelta s (timedelta_hours 1)"
    using assms(3) by (simp add: raw_end_def)
  have t: "(event_start, summ, duration) = tuple_of z c s"
    using event_of_tuple[OF assms(1,2)] .
  have h: "hours_of (timedelta_hours 1) = 1"
    by (simp add: hours_of_def total_seconds_def timedelta_hours_def us_per_second_def)
  show ?thesis
  proof (cases s)
    case (DateV n)
    have "td_days (timedelta_hours 1) = 0"
      by (simp add: td_days_def timedelta_hours_def us_per_day_def us_per_second_def)
    with DateV t r show ?thesis
      by (simp add: tuple_of_def is_datetime_def plus_timedelta_def)
  next
    case (DateTimeV d)
    have du: "duration = fst (z_fromutc z (dt_wall d + timedelta_hours 1)) - fst (z_fromutc z (dt_wall d))"
      using DateTimeV t r
      by (simp add: tuple_of_def is_datetime_def plus_timedelta_def normalize_datetime wall_sub_def)
    have one: "duration = timedelta_hours 1"
      if "fst (z_fromutc z (dt_wall d + timedelta_hours 1)) - (dt_wall d + timedelta_hours 1)
            = fst (z_fromutc z (dt_wall d)) - dt_wall d"
      using that du by linarith
    have imp: "fst (z_fromutc z (dt_wall d + timedelta_hours 1)) - (dt_wall d + timedelta_hours 1)
                 = fst (z_fromutc z (dt_wall d)) - dt_wall d
               \<longrightarrow> duration = timedelta_hours 1 \<and> hours_of duration = 1"
      using one h by blast
    show ?thesis
      unfolding DateTimeV dt_value.case
      using r[unfolded DateTimeV] du imp by blast
  qed
qed

theorem default_end_one_hour_later_witness:
  "event_of la_2024 ex_start ex_end ex_lunch = Inr (Some (ex_lunch_tuple, ''Lunch  ''))
   \<and> dtstart ex_lunch = Some (DateTimeV (utc_datetime 2024 6 11 16 0 0)) \<and> dtend ex_lunch = None
   \<and> raw_end ex_lunch (DateTimeV (utc_datetime 2024 6 11 16 0 0)) =
       plus_timedelta (DateTimeV (utc_datetime 2024 6 11 16 0 0)) (timedelta_hours 1)
   \<and> snd (snd ex_lunch_tuple) = timedelta_hours 1
   \<and> hours_of (timedelta_hours 1) = 1"
proof -
  have d: "dtstart ex_lunch = Some (DateTimeV (utc_datetime 2024 6 11 16 0 0))" "dtend ex_lunch = None"
    by (simp_all add: ex_lunch_def)
  have o: "fst (z_fromutc la_2024 (dt_wall (utc_datetime 2024 6 11 16 0 0) + timedelta_hours 1))
             - (dt_wall (utc_datetime 2024 6 11 16 0 0) + timedelta_hours 1)
           = fst (z_fromutc la_2024 (dt_wall (utc_datetime 2024 6 11 16 0 0)))
             - dt_wall (utc_datetime 2024 6 11 16 0 0)"
    by (simp add: la_2024_def utc_datetime_def cal_defs)
  have "raw_end ex_lunch (DateTimeV (utc_datetime 2024 6 11 16 0 0)) =
       plus_timedelta (DateTimeV (utc_datetime 2024 6 11 16 0 0)) (timedelta_hours 1)
      \<and> hours_of (timedelta_hours 1) = 1"
    using default_end_one_hour_later[OF ev_lunch[unfolded ex_lunch_tuple_def] d] o
    by simp
  then show ?thesis using d ev_lunch by (simp add: ex_lunch_tuple_def)
qed




end
